theory Spec2Isabelle
  imports Main "HOL-Library.FSet" "HOL-Library.AList" "HOL-Library.Sublist"
begin

section \<open>The engagement server (\<open>resetCounters.js\<close>, second script)\<close>

text \<open>
  The server keeps two JavaScript objects in memory, \<open>data\<close> (item id to counters) and
  \<open>users\<close> (username to account), and writes each of them to a file (\<open>views.json\<close>,
  \<open>users.json\<close>) in \<open>saveData\<close> and \<open>saveUsers\<close>.

  A JavaScript object used as a dictionary is modelled by a map from its own string keys.
  A key that the object lacks is looked up in \<open>Object.prototype\<close>, so \<open>obj[key]\<close> is not
  \<open>undefined\<close> for every such key: for the eleven method names of \<open>Object.prototype\<close> it
  is a function, and for \<open>__proto__\<close> it is \<open>Object.prototype\<close> itself. All of these are
  truthy, and none of them has a property \<open>views\<close>, \<open>hearts\<close>, \<open>usersHearted\<close>, \<open>viewed\<close>
  or \<open>hearted\<close> when the process starts.
\<close>

definition function_names :: "string list" where
  "function_names =
     [''constructor'', ''__defineGetter__'', ''__defineSetter__'', ''hasOwnProperty'',
      ''__lookupGetter__'', ''__lookupSetter__'', ''isPrototypeOf'', ''propertyIsEnumerable'',
      ''toString'', ''valueOf'', ''toLocaleString'']"

definition inherited :: "string \<Rightarrow> bool" where
  "inherited k = (k \<in> set function_names \<or> k = ''__proto__'')"

text \<open>
  \<open>obj[key]\<close>: the own value, one of the functions of \<open>Object.prototype\<close>,
  \<open>Object.prototype\<close> itself, or \<open>undefined\<close>.
\<close>

datatype 'a slot = Own 'a | Function | Prototype | Missing

definition get :: "(string \<rightharpoonup> 'a) \<Rightarrow> string \<Rightarrow> 'a slot" where
  "get m k =
     (case m k of
        Some v \<Rightarrow> Own v
      | None \<Rightarrow> if k \<in> set function_names then Function
                else if k = ''__proto__'' then Prototype
                else Missing)"

text \<open>
  A request header or body field that may be absent is a \<open>string option\<close>; JavaScript
  treats the absent value and the empty string alike as false.
\<close>

definition present :: "string option \<Rightarrow> string option" where
  "present f = (case f of None \<Rightarrow> None | Some v \<Rightarrow> if v = [] then None else Some v)"

text \<open>
  A counter is modelled by an integer; a JavaScript number is a double. \<open>js_succ v\<close> is
  \<open>v + 1\<close> in double arithmetic for an integer \<open>v\<close> that is a double: the sum is exact from
  \<open>-2^53\<close> up to \<open>2^53 - 1\<close>; where the magnitude is between \<open>2^53\<close> and \<open>2^54\<close> the doubles
  are the even integers, \<open>v + 1\<close> lies half way between two of them and is rounded to
  the multiple of 4; and from \<open>2^54\<close> on the sum is rounded back to \<open>v\<close>. Counters that
  are no integers (a fraction or an infinity, which only a hand-written \<open>views.json\<close>
  can bring in) are outside the model.
\<close>

definition js_succ :: "int \<Rightarrow> int" where
  "js_succ v =
     (if - (2 ^ 53) \<le> v \<and> v < 2 ^ 53 then v + 1
      else if - (2 ^ 54) < v \<and> v < 2 ^ 54 then (if 4 dvd v then v else v + 2)
      else v)"

text \<open>
  A ledger entry in memory holds two numbers and a \<open>Set\<close> (the loader coerces every
  entry to that shape), so the set is a finite set. An account has the shape
  \<open>/register\<close> creates: \<open>viewed\<close> and \<open>hearted\<close> are arrays.

  The handlers can write two properties on a function of \<open>Object.prototype\<close>: \<open>views\<close>,
  through \<open>data[id]\<close>, and \<open>hearted\<close>, through \<open>users[userId]\<close>. The maps \<open>fviews\<close> and
  \<open>fhearted\<close> hold them, by the name of the function. A write to a property of
  \<open>Object.prototype\<close> itself changes what every object of the process inherits (the
  \<open>for ... in\<close> loop of \<open>saveData\<close> then meets the new property, for one); the model does
  not follow the process after such a write, and the handler has the result \<open>None\<close>.
\<close>

record entry =
  views :: int
  hearts :: int
  usersHearted :: "string fset"

record user =
  email :: string
  password :: string
  viewed :: "string list"
  hearted :: "string list"

record server =
  data :: "string \<rightharpoonup> entry"
  users :: "string \<rightharpoonup> user"
  viewsFile :: "string \<rightharpoonup> entry"
  usersFile :: "string \<rightharpoonup> user"
  fviews :: "string \<rightharpoonup> int"
  fhearted :: "string \<rightharpoonup> string list"

text \<open>
  The two error responses of the handlers, and the \<open>TypeError\<close> that a handler throws
  when it reads a property of \<open>undefined\<close>; Express answers it with status 500, and what
  the handler wrote before stays written.
\<close>

datatype error = MissingId | LoginRequired | TypeError

text \<open>
  The JSON body of a response. \<open>userHasViewed\<close> is \<open>None\<close> where the handler computes
  \<open>undefined\<close> (an unknown user) or sends no such field (\<open>/heart\<close>).
\<close>

record response =
  r_views :: int
  r_hearts :: int
  userHasHearted :: bool
  userHasViewed :: "bool option"

definition zero_entry :: entry where
  "zero_entry = \<lparr>views = 0, hearts = 0, usersHearted = {||}\<rparr>"

text \<open>\<open>if (!data[id]) data[id] = { views: 0, hearts: 0, usersHearted: new Set() }\<close>\<close>

definition ensure_entry :: "string \<Rightarrow> server \<Rightarrow> server" where
  "ensure_entry i s =
     (case get (data s) i of
        Missing \<Rightarrow> s\<lparr>data := (data s)(i \<mapsto> zero_entry)\<rparr>
      | _ \<Rightarrow> s)"

text \<open>
  \<open>saveData\<close> copies the entries into a fresh object by \<open>toSave[id] = {...}\<close>. For the
  own key \<open>__proto__\<close>, which \<open>JSON.parse\<close> can have put into \<open>data\<close>, that assignment sets
  the prototype of \<open>toSave\<close> and adds no property, so the entry is not written.
  \<open>saveUsers\<close> writes \<open>users\<close> itself.
\<close>

definition saveData :: "server \<Rightarrow> server" where
  "saveData s = s\<lparr>viewsFile := (data s)(''__proto__'' := None)\<rparr>"

definition saveUsers :: "server \<Rightarrow> server" where
  "saveUsers s = s\<lparr>usersFile := users s\<rparr>"

text \<open>The own entry of an id, and the zero entry for an id that has none.\<close>

definition entry_of :: "server \<Rightarrow> string \<Rightarrow> entry" where
  "entry_of s i = (case data s i of None \<Rightarrow> zero_entry | Some e \<Rightarrow> e)"

text \<open>\<open>x || 0\<close> and \<open>x || []\<close> for a property that is a number, or an array, or absent.\<close>

definition or_zero :: "int option \<Rightarrow> int" where
  "or_zero v = (case v of None \<Rightarrow> 0 | Some n \<Rightarrow> n)"

definition or_empty :: "'a list option \<Rightarrow> 'a list" where
  "or_empty v = (case v of None \<Rightarrow> [] | Some xs \<Rightarrow> xs)"

text \<open>
  The body that \<open>/data/:id\<close> and \<open>/view\<close> send, whose four properties are computed in
  turn:
  \<open>views: data[id].views || 0\<close>, \<open>hearts: data[id].hearts || 0\<close>,
  \<open>userHasHearted: userId ? data[id].usersHearted.has(userId) : false\<close>,
  \<open>userHasViewed: userId ? (users[userId] && users[userId].viewed.includes(id)) : false\<close>.
  On a function or on \<open>Object.prototype\<close> the property \<open>usersHearted\<close> or \<open>viewed\<close> is
  \<open>undefined\<close>, and the call on it throws.
\<close>

definition flags :: "string \<Rightarrow> string option \<Rightarrow> server \<Rightarrow> error + response" where
  "flags i userId s =
     (case get (data s) i of
        Missing \<Rightarrow> Inl TypeError
      | Own e \<Rightarrow>
          (case present userId of
             None \<Rightarrow> Inr \<lparr>r_views = views e, r_hearts = hearts e, userHasHearted = False,
                          userHasViewed = Some False\<rparr>
           | Some u \<Rightarrow>
               (case get (users s) u of
                  Own a \<Rightarrow> Inr \<lparr>r_views = views e, r_hearts = hearts e,
                                 userHasHearted = u |\<in>| usersHearted e,
                                 userHasViewed = Some (i \<in> set (viewed a))\<rparr>
                | Missing \<Rightarrow> Inr \<lparr>r_views = views e, r_hearts = hearts e,
                                   userHasHearted = u |\<in>| usersHearted e,
                                   userHasViewed = None\<rparr>
                | Function \<Rightarrow> Inl TypeError
                | Prototype \<Rightarrow> Inl TypeError))
      | Function \<Rightarrow>
          (case present userId of
             None \<Rightarrow> Inr \<lparr>r_views = or_zero (fviews s i), r_hearts = 0,
                          userHasHearted = False, userHasViewed = Some False\<rparr>
           | Some u \<Rightarrow> Inl TypeError)
      | Prototype \<Rightarrow>
          (case present userId of
             None \<Rightarrow> Inr \<lparr>r_views = 0, r_hearts = 0,
                          userHasHearted = False, userHasViewed = Some False\<rparr>
           | Some u \<Rightarrow> Inl TypeError))"

text \<open>\<open>app.get('/data/:id')\<close>: the route parameter is never empty.\<close>

definition query :: "string \<Rightarrow> string option \<Rightarrow> server \<Rightarrow> (error + response) \<times> server" where
  "query i userId s = (let s1 = ensure_entry i s in (flags i userId s1, s1))"

text \<open>
  \<open>data[id].views = (data[id].views || 0) + 1\<close>, after \<open>ensure_entry\<close>: on the own entry,
  on a function of \<open>Object.prototype\<close>, or on \<open>Object.prototype\<close> itself, where the model
  ends.
\<close>

definition bump_views :: "string \<Rightarrow> server \<Rightarrow> (error + server) option" where
  "bump_views i s =
     (case get (data s) i of
        Own e \<Rightarrow> Some (Inr (s\<lparr>data := (data s)(i \<mapsto> e\<lparr>views := js_succ (views e)\<rparr>)\<rparr>))
      | Function \<Rightarrow>
          Some (Inr (s\<lparr>fviews := (fviews s)(i \<mapsto> js_succ (or_zero (fviews s i)))\<rparr>))
      | Prototype \<Rightarrow> None
      | Missing \<Rightarrow> Some (Inl TypeError))"

definition push_viewed :: "string \<Rightarrow> user \<Rightarrow> string \<Rightarrow> server \<Rightarrow> server" where
  "push_viewed u a i s = s\<lparr>users := (users s)(u \<mapsto> a\<lparr>viewed := viewed a @ [i]\<rparr>)\<rparr>"

text \<open>
  \<open>userId && users[userId]\<close>: the account of the caller, a function or
  \<open>Object.prototype\<close> for a name that \<open>users\<close> inherits, and \<open>Missing\<close> where the
  condition is false.
\<close>

definition caller :: "string option \<Rightarrow> server \<Rightarrow> (string \<times> user) slot" where
  "caller userId s =
     (case present userId of
        None \<Rightarrow> Missing
      | Some u \<Rightarrow>
          (case get (users s) u of
             Own a \<Rightarrow> Own (u, a)
           | Function \<Rightarrow> Function
           | Prototype \<Rightarrow> Prototype
           | Missing \<Rightarrow> Missing))"

text \<open>
  \<open>app.post('/view')\<close>. For a name that \<open>users\<close> inherits the condition
  \<open>userId && users[userId]\<close> holds, and \<open>users[userId].viewed.includes(id)\<close> throws
  before anything is counted.
\<close>

definition view ::
  "string option \<Rightarrow> string option \<Rightarrow> server \<Rightarrow> ((error + response) \<times> server) option" where
  "view ido userId s =
     (case present ido of
        None \<Rightarrow> Some (Inl MissingId, s)
      | Some i \<Rightarrow>
          let s1 = ensure_entry i s in
          (case caller userId s1 of
             Own (u, a) \<Rightarrow>
               if i \<in> set (viewed a) then Some (flags i userId s1, s1)
               else (case bump_views i s1 of
                       None \<Rightarrow> None
                     | Some (Inl e) \<Rightarrow> Some (Inl e, s1)
                     | Some (Inr s2) \<Rightarrow>
                         let s3 = saveData (saveUsers (push_viewed u a i s2))
                         in Some (flags i userId s3, s3))
           | Missing \<Rightarrow>
               (case bump_views i s1 of
                  None \<Rightarrow> None
                | Some (Inl e) \<Rightarrow> Some (Inl e, s1)
                | Some (Inr s2) \<Rightarrow> let s3 = saveData s2 in Some (flags i userId s3, s3))
           | Function \<Rightarrow> Some (Inl TypeError, s1)
           | Prototype \<Rightarrow> Some (Inl TypeError, s1)))"

text \<open>
  \<open>app.post('/heart')\<close>. \<open>Array.from(new Set([...hearted, id]))\<close> keeps the first
  occurrence of each element. For an id that \<open>data\<close> inherits, \<open>data[id].usersHearted\<close>
  is \<open>undefined\<close> and \<open>usersSet.has\<close> throws. For a user name that \<open>users\<close> inherits the
  request passes the login test, and the new \<open>hearted\<close> list is written on the function
  (or on \<open>Object.prototype\<close>, where the model ends).
\<close>

definition array_from_set :: "'a list \<Rightarrow> 'a list" where
  "array_from_set xs = rev (remdups (rev xs))"

definition toggle_list :: "bool \<Rightarrow> string \<Rightarrow> string list \<Rightarrow> string list" where
  "toggle_list has i xs =
     (if has then filter (\<lambda>x. x \<noteq> i) xs else array_from_set (xs @ [i]))"

definition heart ::
  "string option \<Rightarrow> string option \<Rightarrow> server \<Rightarrow> ((error + response) \<times> server) option" where
  "heart ido userId s =
     (case present ido of
        None \<Rightarrow> Some (Inl MissingId, s)
      | Some i \<Rightarrow>
          (case present userId of
             None \<Rightarrow> Some (Inl LoginRequired, s)
           | Some u \<Rightarrow>
               if get (users s) u = Missing then Some (Inl LoginRequired, s)
               else
                 let s1 = ensure_entry i s in
                 (case get (data s1) i of
                    Own e \<Rightarrow>
                      let has = u |\<in>| usersHearted e;
                          usersSet = (if has then usersHearted e |-| {|u|}
                                      else finsert u (usersHearted e));
                          e' = e\<lparr>usersHearted := usersSet, hearts := int (fcard usersSet)\<rparr>;
                          r = \<lparr>r_views = views e', r_hearts = hearts e',
                               userHasHearted = u |\<in>| usersSet, userHasViewed = None\<rparr>
                      in (case get (users s1) u of
                            Own a \<Rightarrow>
                              let s2 = s1\<lparr>users := (users s1)(u \<mapsto>
                                            a\<lparr>hearted := toggle_list has i (hearted a)\<rparr>),
                                          data := (data s1)(i \<mapsto> e')\<rparr>
                              in Some (Inr r, saveData (saveUsers s2))
                          | Function \<Rightarrow>
                              let s2 = s1\<lparr>fhearted := (fhearted s1)(u \<mapsto>
                                            toggle_list has i (or_empty (fhearted s1 u))),
                                          data := (data s1)(i \<mapsto> e')\<rparr>
                              in Some (Inr r, saveData (saveUsers s2))
                          | Prototype \<Rightarrow> None
                          | Missing \<Rightarrow> Some (Inl LoginRequired, s))
                  | Function \<Rightarrow> Some (Inl TypeError, s1)
                  | Prototype \<Rightarrow> Some (Inl TypeError, s1)
                  | Missing \<Rightarrow> Some (Inl TypeError, s1))))"

text \<open>The state of a server started with neither file: \<open>let data = {}; let users = {}\<close>.\<close>

definition initial_server :: server where
  "initial_server =
     \<lparr>data = Map.empty, users = Map.empty, viewsFile = Map.empty, usersFile = Map.empty,
      fviews = Map.empty, fhearted = Map.empty\<rparr>"

text \<open>
  \<open>app.post('/register')\<close>, on the state only. \<open>if (users[username])\<close> answers 409 also
  for a name that \<open>users\<close> inherits.
\<close>

definition register :: "string \<Rightarrow> string \<Rightarrow> string \<Rightarrow> server \<Rightarrow> server" where
  "register username em pw s =
     (if username = [] \<or> em = [] \<or> pw = [] then s
      else case get (users s) username of
        Missing \<Rightarrow> saveUsers (s\<lparr>users := (users s)(username \<mapsto>
                  \<lparr>email = em, password = pw, viewed = [], hearted = []\<rparr>)\<rparr>)
      | _ \<Rightarrow> s)"








text \<open>\<open>n\<close> successive \<open>/view\<close> requests with the same id and user header.\<close>

fun repeat_view :: "nat \<Rightarrow> string option \<Rightarrow> string option \<Rightarrow> server \<Rightarrow> server option" where
  "repeat_view 0 ido userId s = Some s"
| "repeat_view (Suc n) ido userId s =
     (case repeat_view n ido userId s of
        None \<Rightarrow> None
      | Some t \<Rightarrow> map_option snd (view ido userId t))"









section \<open>Text matching used by the maintenance scripts\<close>

text \<open>
  A JavaScript string is modelled by a list of characters. Every pattern of the scripts
  is ASCII, so matching it on bytes agrees with matching it on UTF-16 code units; the
  case-insensitive flag of a regular expression folds the ASCII letters only, and
  white space \<open>\s\<close> is modelled by its ASCII members.

  \<open>String.prototype.toLowerCase\<close> maps every letter of Unicode; it is a parameter
  \<open>lower\<close> of the functions that call it. On a string whose letters are all ASCII it
  is \<open>ascii_lower\<close>.
\<close>

definition lower_char :: "char \<Rightarrow> char" where
  "lower_char c =
     (case map_of (zip ''ABCDEFGHIJKLMNOPQRSTUVWXYZ'' ''abcdefghijklmnopqrstuvwxyz'') c of
        Some d \<Rightarrow> d
      | None \<Rightarrow> c)"

definition ascii_lower :: "string \<Rightarrow> string" where
  "ascii_lower s = map lower_char s"

text \<open>\<open>s\<close> starts with the pattern text \<open>p\<close>, letters compared without case.\<close>

definition starts_ci :: "string \<Rightarrow> string \<Rightarrow> bool" where
  "starts_ci p s = (ascii_lower (take (length p) s) = ascii_lower p)"

definition is_quote :: "char \<Rightarrow> bool" where
  "is_quote c = (c = CHR 0x22 \<or> c = CHR 0x27)"

definition is_space :: "char \<Rightarrow> bool" where
  "is_space c = (c \<in> set [CHR 0x20, CHR 0x09, CHR 0x0A, CHR 0x0B, CHR 0x0C, CHR 0x0D])"

definition is_word_char :: "char \<Rightarrow> bool" where
  "is_word_char c =
     (c \<in> set ''abcdefghijklmnopqrstuvwxyzABCDEFGHIJKLMNOPQRSTUVWXYZ0123456789_'')"

text \<open>
  \<open>["']([^"']+)["']\<close> at the start of \<open>s\<close>: a quote, the longest run of characters that
  are not quotes, which must not be empty, and a quote. The run is the captured group.
\<close>

definition quoted :: "string \<Rightarrow> string option" where
  "quoted s =
     (case s of
        [] \<Rightarrow> None
      | q # r \<Rightarrow>
          if \<not> is_quote q then None
          else let v = takeWhile (\<lambda>c. \<not> is_quote c) r
               in if v = [] \<or> length v = length r then None else Some v)"

text \<open>The leftmost position of the text at which a pattern matches, tried in turn.\<close>

fun first_match :: "(string \<Rightarrow> 'a option) \<Rightarrow> string \<Rightarrow> 'a option" where
  "first_match f [] = f []"
| "first_match f (c # cs) = (case f (c # cs) of Some v \<Rightarrow> Some v | None \<Rightarrow> first_match f cs)"

section \<open>The deduplicator of \<open>fix-images.js\<close>\<close>

text \<open>\<open>block.match(/data-id=["']([^"']+)["']/i)\<close>, and \<open>'(no-id)'\<close> without a match.\<close>

definition data_id_at :: "string \<Rightarrow> string option" where
  "data_id_at s = (if starts_ci ''data-id='' s then quoted (drop 8 s) else None)"

definition block_id :: "string \<Rightarrow> string" where
  "block_id block = (case first_match data_id_at block of Some v \<Rightarrow> v | None \<Rightarrow> ''(no-id)'')"

text \<open>
  \<open>block.match(/<img[^>]+src=["']([^"']+)["']/i)\<close>. After \<open><img\<close> the greedy \<open>[^>]+\<close>
  takes \<open>k \<ge> 1\<close> characters other than \<open>></span>\<close>, the largest \<open>k\<close> first, until the rest
  matches \<open>src=\<close> and a quoted value.
\<close>

definition src_at :: "string \<Rightarrow> string option" where
  "src_at s = (if starts_ci ''src='' s then quoted (drop 4 s) else None)"

fun last_src :: "string \<Rightarrow> nat \<Rightarrow> string option" where
  "last_src t 0 = None"
| "last_src t (Suc k) =
     (case src_at (drop (Suc k) t) of Some v \<Rightarrow> Some v | None \<Rightarrow> last_src t k)"

definition img_src_at :: "string \<Rightarrow> string option" where
  "img_src_at s =
     (if starts_ci ''<img'' s
      then last_src (drop 4 s) (length (takeWhile (\<lambda>c. c \<noteq> CHR ''>'') (drop 4 s)))
      else None)"

definition block_src :: "string \<Rightarrow> string option" where
  "block_src block = first_match img_src_at block"

text \<open>\<open>/^https?:\/\//i.test(src)\<close>\<close>

definition is_http :: "string \<Rightarrow> bool" where
  "is_http src = (starts_ci ''http://'' src \<or> starts_ci ''https://'' src)"

text \<open>A JavaScript \<open>Set\<close> of strings, in insertion order.\<close>

definition set_add :: "string \<Rightarrow> string list \<Rightarrow> string list" where
  "set_add x xs = (if x \<in> set xs then xs else xs @ [x])"

text \<open>The truth value of \<open>src\<close>, which is \<open>null\<close> or a string.\<close>

definition src_truthy :: "string option \<Rightarrow> bool" where
  "src_truthy src = (case src of None \<Rightarrow> False | Some v \<Rightarrow> v \<noteq> [])"

datatype reason = DuplicateId | DuplicateSrc | NoSrc | Local | Reachable | Unreachable

record result =
  r_id :: string
  r_src :: "string option"
  r_ok :: bool
  r_reason :: reason
  r_block :: string

text \<open>
  The first loop of \<open>main\<close> (lines 122 to 167). \<open>probe\<close> stands for \<open>(await checkUrl(src)).ok\<close>;
  \<open>seenIds\<close> and \<open>seenSrcs\<close> are the two sets of the loop.
\<close>

fun pass1 :: "(string \<Rightarrow> bool) \<Rightarrow> string list \<Rightarrow> string list \<Rightarrow> string list \<Rightarrow> result list" where
  "pass1 probe seenIds seenSrcs [] = []"
| "pass1 probe seenIds seenSrcs (block # blocks) =
     (let i = block_id block; src = block_src block in
      if i \<in> set seenIds
      then \<lparr>r_id = i, r_src = src, r_ok = False, r_reason = DuplicateId, r_block = block\<rparr>
           # pass1 probe seenIds seenSrcs blocks
      else if src_truthy src \<and> the src \<in> set seenSrcs
      then \<lparr>r_id = i, r_src = src, r_ok = False, r_reason = DuplicateSrc, r_block = block\<rparr>
           # pass1 probe (set_add i seenIds) seenSrcs blocks
      else
        let seenIds' = set_add i seenIds;
            seenSrcs' = (if src_truthy src then set_add (the src) seenSrcs else seenSrcs)
        in if \<not> src_truthy src
           then \<lparr>r_id = i, r_src = None, r_ok = False, r_reason = NoSrc, r_block = block\<rparr>
                # pass1 probe seenIds' seenSrcs' blocks
           else if \<not> is_http (the src)
           then \<lparr>r_id = i, r_src = src, r_ok = True, r_reason = Local, r_block = block\<rparr>
                # pass1 probe seenIds' seenSrcs' blocks
           else if probe (the src)
           then \<lparr>r_id = i, r_src = src, r_ok = True, r_reason = Reachable, r_block = block\<rparr>
                # pass1 probe seenIds' seenSrcs' blocks
           else \<lparr>r_id = i, r_src = src, r_ok = False, r_reason = Unreachable, r_block = block\<rparr>
                # pass1 probe seenIds' seenSrcs' blocks)"

text \<open>
  \<open>normalizeSrc\<close>. \<open>lower\<close> stands for \<open>toLowerCase\<close>.
  \<open>url_href src\<close> stands for the result of \<open>new URL(src)\<close>, with its
  \<open>search\<close> cleared, read through \<open>href\<close>: \<open>None\<close> where the constructor throws, as it
  does for every relative reference. In \<open>/\?.*$/\<close> the dot matches no line terminator, so
  the text is cut at the first question mark that has none after it (line feed and
  carriage return; the two separators beyond ASCII are outside the model).
\<close>

definition strip_slash :: "string \<Rightarrow> string" where
  "strip_slash s = (if s \<noteq> [] \<and> last s = CHR ''/'' then butlast s else s)"

fun strip_query :: "string \<Rightarrow> string" where
  "strip_query [] = []"
| "strip_query (c # cs) =
     (if c = CHR ''?'' \<and> list_all (\<lambda>d. d \<noteq> CHR 0x0A \<and> d \<noteq> CHR 0x0D) cs then []
      else c # strip_query cs)"

definition normalizeSrc ::
  "(string \<Rightarrow> string) \<Rightarrow> (string \<Rightarrow> string option) \<Rightarrow> string \<Rightarrow> string" where
  "normalizeSrc lower url_href src =
     (if src = [] then src
      else case url_href src of
        Some href \<Rightarrow> lower (strip_slash href)
      | None \<Rightarrow> lower (strip_slash (strip_query src)))"

record removed_item =
  rm_id :: string
  rm_src :: string
  rm_reason :: reason

record pass2_state =
  kept :: "string list"
  removed :: "removed_item list"
  seenFinalIds :: "string list"
  seenFinalSrcs :: "string list"

text \<open>\<open>r.src || \<^verbatim>\<open>''\<close>\<close>\<close>

definition src_of :: "result \<Rightarrow> string" where
  "src_of r = (if src_truthy (r_src r) then the (r_src r) else [])"

text \<open>The body of the second loop (lines 190 to 220), for one result.\<close>

definition pass2_step :: "(string \<Rightarrow> string) \<Rightarrow> pass2_state \<Rightarrow> result \<Rightarrow> pass2_state" where
  "pass2_step norm st r =
     (let i = r_id r;
          src = src_of r;
          n = norm src in
      if \<not> r_ok r
      then st\<lparr>removed := removed st @ [\<lparr>rm_id = i, rm_src = src, rm_reason = r_reason r\<rparr>],
              seenFinalIds := set_add i (seenFinalIds st),
              seenFinalSrcs := (if n \<noteq> [] then set_add n (seenFinalSrcs st) else seenFinalSrcs st)\<rparr>
      else if i \<in> set (seenFinalIds st)
      then st\<lparr>removed := removed st @ [\<lparr>rm_id = i, rm_src = src, rm_reason = DuplicateId\<rparr>]\<rparr>
      else if n \<noteq> [] \<and> n \<in> set (seenFinalSrcs st)
      then st\<lparr>removed := removed st @ [\<lparr>rm_id = i, rm_src = src, rm_reason = DuplicateSrc\<rparr>],
              seenFinalIds := set_add i (seenFinalIds st)\<rparr>
      else st\<lparr>kept := kept st @ [r_block r],
              seenFinalIds := set_add i (seenFinalIds st),
              seenFinalSrcs := (if n \<noteq> [] then set_add n (seenFinalSrcs st) else seenFinalSrcs st)\<rparr>)"

definition pass2 :: "(string \<Rightarrow> string) \<Rightarrow> result list \<Rightarrow> pass2_state" where
  "pass2 norm results =
     foldl (pass2_step norm)
       \<lparr>kept = [], removed = [], seenFinalIds = [], seenFinalSrcs = []\<rparr> results"

text \<open>Both loops, from the extracted blocks to the final state of the second loop.\<close>

definition dedup ::
  "(string \<Rightarrow> string) \<Rightarrow> (string \<Rightarrow> bool) \<Rightarrow> (string \<Rightarrow> string option) \<Rightarrow> string list \<Rightarrow>
   pass2_state" where
  "dedup lower probe url_href blocks =
     pass2 (normalizeSrc lower url_href) (pass1 probe [] [] blocks)"

section \<open>The catalog extractor of \<open>fix-images.js\<close>\<close>

text \<open>\<open>html.indexOf(pat, from)\<close> for a pattern that is not empty; \<open>None\<close> is \<open>-1\<close>.\<close>

definition indexOf :: "string \<Rightarrow> string \<Rightarrow> nat \<Rightarrow> nat option" where
  "indexOf pat s from = List.find (\<lambda>i. take (length pat) (drop i s) = pat) [from..<length s]"

definition slice :: "string \<Rightarrow> nat \<Rightarrow> nat \<Rightarrow> string" where
  "slice s a b = take (b - a) (drop a s)"

text \<open>\<open>\s*=\s*\<close> at the start of \<open>s\<close>, giving the rest.\<close>

definition after_eq :: "string \<Rightarrow> string option" where
  "after_eq s =
     (case dropWhile is_space s of
        [] \<Rightarrow> None
      | c # r \<Rightarrow> if c = CHR ''='' then Some (dropWhile is_space r) else None)"

text \<open>\<open>/data-id\s*=\s*["']([^"']+)["']/i.test(openTag)\<close>\<close>

definition data_id_ws_at :: "string \<Rightarrow> string option" where
  "data_id_ws_at s =
     (if starts_ci ''data-id'' s
      then (case after_eq (drop 7 s) of None \<Rightarrow> None | Some r \<Rightarrow> quoted r)
      else None)"

definition has_data_id :: "string \<Rightarrow> bool" where
  "has_data_id openTag = (first_match data_id_ws_at openTag \<noteq> None)"

text \<open>
  \<open>/class\s*=\s*["'][^"']*\bimage-container\b[^"']*["']/i.test(openTag)\<close>. After the
  opening quote comes the run of characters up to the next quote, which must exist; the
  run has to contain the word with a word boundary on each side. The characters next to
  the run are quotes, so both ends of the run are boundaries.
\<close>

definition word_at :: "string \<Rightarrow> string \<Rightarrow> nat \<Rightarrow> bool" where
  "word_at w run k =
     (starts_ci w (drop k run) \<and>
      (k = 0 \<or> \<not> is_word_char (run ! (k - 1))) \<and>
      (k + length w = length run \<or> \<not> is_word_char (run ! (k + length w))))"

definition class_at :: "string \<Rightarrow> string option" where
  "class_at s =
     (if starts_ci ''class'' s
      then (case after_eq (drop 5 s) of
              None \<Rightarrow> None
            | Some [] \<Rightarrow> None
            | Some (q # r) \<Rightarrow>
                if \<not> is_quote q then None
                else let run = takeWhile (\<lambda>c. \<not> is_quote c) r
                     in if length run = length r then None
                        else if list_ex (word_at ''image-container'' run) [0..<length run]
                        then Some run else None)
      else None)"

definition has_class :: "string \<Rightarrow> bool" where
  "has_class openTag = (first_match class_at openTag \<noteq> None)"

text \<open>
  \<open>re.exec(html)\<close> for \<open>/<div\b|<\/div>/ig\<close> with \<open>lastIndex = pos\<close>: the end of the
  leftmost match at or after \<open>pos\<close>, and whether it is an opening tag.
\<close>

definition open_div_at :: "string \<Rightarrow> bool" where
  "open_div_at s =
     (starts_ci ''<div'' s \<and> (case drop 4 s of [] \<Rightarrow> True | c # r \<Rightarrow> \<not> is_word_char c))"

definition close_div_at :: "string \<Rightarrow> bool" where
  "close_div_at s = starts_ci ''</div>'' s"

definition next_div :: "string \<Rightarrow> nat \<Rightarrow> (nat \<times> bool) option" where
  "next_div html pos =
     (case List.find (\<lambda>i. open_div_at (drop i html) \<or> close_div_at (drop i html))
             [pos..<length html] of
        None \<Rightarrow> None
      | Some i \<Rightarrow> if open_div_at (drop i html) then Some (i + 4, True) else Some (i + 6, False))"

lemma next_div_gt: "next_div html pos = Some (e, b) \<Longrightarrow> pos < e \<and> pos < length html"
  by (auto simp: next_div_def find_Some_iff split: option.splits if_splits)

text \<open>
  The inner loop of \<open>extractImageContainers\<close>: the index just after the tag that brings
  \<open>depth\<close> back to 0, and \<open>None\<close> when the text ends first.
\<close>

function close_index :: "string \<Rightarrow> nat \<Rightarrow> int \<Rightarrow> nat option" where
  "close_index html pos depth =
     (case next_div html pos of
        None \<Rightarrow> None
      | Some (e, is_open) \<Rightarrow>
          let depth' = (if is_open then depth + 1 else depth - 1)
          in if depth' = 0 then Some e else close_index html e depth')"
  by pat_completeness auto
termination
  by (relation "measure (\<lambda>(html, pos, depth). length html - pos)")
     (auto dest!: next_div_gt)

lemma close_index_gt: "close_index html pos depth = Some e \<Longrightarrow> pos < e"
proof (induction html pos depth rule: close_index.induct)
  case (1 html pos depth)
  from "1.prems" obtain e1 b where n: "next_div html pos = Some (e1, b)"
    by (auto split: option.splits)
  have lt: "pos < e1" using next_div_gt [OF n] by simp
  show ?case
  proof (cases "(if b then depth + 1 else depth - 1) = 0")
    case True
    with "1.prems" n lt show ?thesis by (simp add: Let_def)
  next
    case False
    with "1.prems" n have "close_index html e1 (if b then depth + 1 else depth - 1) = Some e"
      by (simp add: Let_def)
    from "1.IH" [OF n refl _ False this] lt show ?thesis by simp
  qed
qed

lemma indexOf_ge: "indexOf pat s from = Some i \<Longrightarrow> from \<le> i \<and> i < length s"
  by (auto simp: indexOf_def find_Some_iff)

text \<open>
  The outer loop of \<open>extractImageContainers\<close>, from \<open>idx\<close>: for each block the pair
  \<open>(openIdx, closeIdx)\<close> that the loop slices, in the order of the pushes.
\<close>

function block_spans :: "string \<Rightarrow> nat \<Rightarrow> (nat \<times> nat) list" where
  "block_spans html idx =
     (case indexOf ''<div'' html idx of
        None \<Rightarrow> []
      | Some openIdx \<Rightarrow>
          (case indexOf ''>'' html openIdx of
             None \<Rightarrow> []
           | Some tagEnd \<Rightarrow>
               if \<not> has_class (slice html openIdx (tagEnd + 1)) \<or>
                  \<not> has_data_id (slice html openIdx (tagEnd + 1))
               then block_spans html (tagEnd + 1)
               else (case close_index html (tagEnd + 1) 1 of
                       None \<Rightarrow> []
                     | Some closeIdx \<Rightarrow> (openIdx, closeIdx) # block_spans html closeIdx)))"
  by pat_completeness auto
termination
proof (relation "measure (\<lambda>(html, idx). length html - idx)", goal_cases)
  case 1
  show ?case by simp
next
  case (2 html idx openIdx tagEnd)
  then show ?case
    using indexOf_ge [of "''<div''" html idx openIdx] indexOf_ge [of "''>''" html openIdx tagEnd]
    by auto
next
  case (3 html idx openIdx tagEnd closeIdx)
  then show ?case
    using indexOf_ge [of "''<div''" html idx openIdx] indexOf_ge [of "''>''" html openIdx tagEnd]
      close_index_gt [of html "tagEnd + 1" 1 closeIdx]
    by auto
qed

definition extractImageContainers :: "string \<Rightarrow> string list" where
  "extractImageContainers html =
     map (\<lambda>(openIdx, closeIdx). slice html openIdx closeIdx) (block_spans html 0)"

text \<open>
  The positions of the text at which an opening tag starts that the loop accepts as a
  block opener.
\<close>

definition qualifying_openers :: "string \<Rightarrow> nat list" where
  "qualifying_openers html =
     filter (\<lambda>i. take 4 (drop i html) = ''<div'' \<and>
                 (case indexOf ''>'' html i of
                    None \<Rightarrow> False
                  | Some tagEnd \<Rightarrow> has_class (slice html i (tagEnd + 1)) \<and>
                                   has_data_id (slice html i (tagEnd + 1))))
       [0..<length html]"

text \<open>
  \<open>html.match(galleryRe)\<close> for
  \<open>/(<section[^>]*class=["']gallery["'][^>]*>)([\s\S]*?)(<\/section>)/i\<close>. At a start
  position the opening tag runs to the first \<open>></span>\<close>, has to contain the class attribute
  before it, and the lazy group ends at the first closing tag after it.
\<close>

definition gallery_class_at :: "string \<Rightarrow> bool" where
  "gallery_class_at s =
     (starts_ci ''class='' s \<and>
      (case drop 6 s of
         [] \<Rightarrow> False
       | q # r \<Rightarrow> is_quote q \<and> starts_ci ''gallery'' r \<and>
                  (case drop 7 r of [] \<Rightarrow> False | q' # r' \<Rightarrow> is_quote q')))"

record gallery_match =
  g_index :: nat
  galleryOpen :: string
  galleryContent :: string
  galleryClose :: string

definition gallery_at :: "string \<Rightarrow> (string \<times> string \<times> string) option" where
  "gallery_at s =
     (if \<not> starts_ci ''<section'' s then None
      else
        let t = drop 8 s;
            g = takeWhile (\<lambda>c. c \<noteq> CHR ''>'') t
        in if length g = length t then None
           else if \<not> list_ex (\<lambda>k. gallery_class_at (drop k g)) [0..<length g] then None
           else
             let rest = drop (Suc (length g)) t
             in (case List.find (\<lambda>j. starts_ci ''</section>'' (drop j rest)) [0..<length rest] of
                   None \<Rightarrow> None
                 | Some j \<Rightarrow> Some (take (9 + length g) s, take j rest, take 10 (drop j rest))))"

definition gallery_find :: "string \<Rightarrow> gallery_match option" where
  "gallery_find html =
     (case List.find (\<lambda>i. gallery_at (drop i html) \<noteq> None) [0..<length html] of
        None \<Rightarrow> None
      | Some i \<Rightarrow>
          (case gallery_at (drop i html) of
             None \<Rightarrow> None
           | Some (op, content, cl) \<Rightarrow>
               Some \<lparr>g_index = i, galleryOpen = op, galleryContent = content,
                     galleryClose = cl\<rparr>))"

text \<open>
  The way \<open>main\<close> ends. \<open>IndexNotFound\<close> and \<open>GalleryNotFound\<close> are the two
  \<open>process.exit(1)\<close>; \<open>NoBlocks\<close> is the plain \<open>return\<close> that writes nothing.
\<close>

datatype exit_error = IndexNotFound | GalleryNotFound

text \<open>The blocks that \<open>main\<close> hands to the deduplicator (lines 99 to 116).\<close>

definition extract_catalog :: "string \<Rightarrow> exit_error + string list" where
  "extract_catalog html =
     (case gallery_find html of
        None \<Rightarrow> Inl GalleryNotFound
      | Some m \<Rightarrow> Inr (extractImageContainers (galleryContent m)))"

section \<open>The ledger file and its reconciliation\<close>

text \<open>
  The parsed content of \<open>views.json\<close>. An object is the list of its own properties,
  with distinct keys, in the order of insertion; that is the order in which JavaScript
  lists them when no key is an array index, and the properties proved below read an
  object through \<open>map_of\<close>, where the order plays no part. A number is a rational,
  which every finite double is, or one of the two infinities, which \<open>JSON.parse\<close> gives
  for a literal beyond the range of the doubles such as \<open>1e400\<close>. Both scripts take the
  file to hold an object and fall back to the empty object when it does not parse. The
  functions below give the object that a script hands to \<open>JSON.stringify\<close>, which
  writes \<open>null\<close> for an infinity.
\<close>

datatype json =
  JNull | JBool bool | JNum rat | JInfinity | JNegInfinity | JStr string | JArr "json list"
| JObj "(string \<times> json) list"

type_synonym jobject = "(string \<times> json) list"

fun js_truthy :: "json \<Rightarrow> bool" where
  "js_truthy JNull = False"
| "js_truthy (JBool b) = b"
| "js_truthy (JNum n) = (n \<noteq> 0)"
| "js_truthy JInfinity = True"
| "js_truthy JNegInfinity = True"
| "js_truthy (JStr s) = (s \<noteq> [])"
| "js_truthy (JArr a) = True"
| "js_truthy (JObj ob) = True"

text \<open>
  The truth value of \<open>views[id]\<close>: that of the own value, and true for a key that the
  object lacks and inherits from \<open>Object.prototype\<close>, where the value is a function or
  \<open>Object.prototype\<close> itself.
\<close>

definition has_entry :: "jobject \<Rightarrow> string \<Rightarrow> bool" where
  "has_entry ob i = (case map_of ob i of None \<Rightarrow> inherited i | Some e \<Rightarrow> js_truthy e)"

text \<open>\<open>{ views: 0, hearts: 0, usersHearted: [] }\<close>\<close>

definition zero_json :: json where
  "zero_json = JObj [(''views'', JNum 0), (''hearts'', JNum 0), (''usersHearted'', JArr [])]"

text \<open>
  The update of \<open>views.json\<close> at the end of \<open>main\<close> in \<open>fix-images.js\<close> (lines 236 to
  247): \<open>for (const id of seenFinalIds) if (viewsData[id]) newViews[id] = viewsData[id]\<close>.
  For a key that \<open>viewsData\<close> lacks and inherits, the value assigned is a function, which
  \<open>JSON.stringify\<close> leaves out, or, under the name \<open>__proto__\<close>, \<open>Object.prototype\<close>; and
  an assignment to \<open>newViews['__proto__']\<close> sets the prototype of \<open>newViews\<close> and adds no
  property, also when \<open>viewsData\<close> has an entry of its own under that name. In all these
  cases nothing is written for the id.
\<close>

definition update_views :: "string list \<Rightarrow> jobject \<Rightarrow> jobject" where
  "update_views ids viewsData =
     foldl (\<lambda>newViews i.
              case map_of viewsData i of
                None \<Rightarrow> newViews
              | Some e \<Rightarrow> if js_truthy e \<and> i \<noteq> ''__proto__''
                          then AList.update i e newViews else newViews)
       [] ids"

text \<open>
  \<open>main\<close> of \<open>fix-images.js\<close>. Its inputs are the two files, each absent or present, and
  the services it calls; it ends in one of the two exits, returns without writing, or
  writes the new \<open>index.html\<close> and, when \<open>views.json\<close> exists, the new \<open>views.json\<close>.
\<close>

datatype outcome =
  Exit exit_error
| NoBlocks
| Written (newHtml: string) (newViews: "jobject option") (final: pass2_state)

fun join_lines :: "string list \<Rightarrow> string" where
  "join_lines [] = []"
| "join_lines [x] = x"
| "join_lines (x # y # ys) = x @ [CHR 0x0A] @ join_lines (y # ys)"

definition fix_images ::
  "(string \<Rightarrow> string) \<Rightarrow> (string \<Rightarrow> bool) \<Rightarrow> (string \<Rightarrow> string option) \<Rightarrow> string option \<Rightarrow>
   jobject option \<Rightarrow> outcome" where
  "fix_images lower probe url_href index_html views_json =
     (case index_html of
        None \<Rightarrow> Exit IndexNotFound
      | Some html \<Rightarrow>
          (case gallery_find html of
             None \<Rightarrow> Exit GalleryNotFound
           | Some m \<Rightarrow>
               let blocks = extractImageContainers (galleryContent m) in
               if blocks = [] then NoBlocks
               else
                 let st = dedup lower probe url_href blocks;
                     newGalleryContent = [CHR 0x0A] @ join_lines (kept st) @ [CHR 0x0A];
                     matched = length (galleryOpen m) + length (galleryContent m)
                               + length (galleryClose m);
                     newHtml = take (g_index m) html @ galleryOpen m @ newGalleryContent
                               @ galleryClose m @ drop (g_index m + matched) html
                 in Written newHtml (map_option (update_views (seenFinalIds st)) views_json) st))"

text \<open>
  The reconciler script (the third script of \<open>resetCounters.js\<close>). \<open>scan_ids\<close> is
  \<open>html.matchAll(/data-id=["']([^"']+)["']/g)\<close>, which is case-sensitive and resumes
  after each match; its first argument counts the characters still to skip.
\<close>

definition data_id_cs_at :: "string \<Rightarrow> string option" where
  "data_id_cs_at s = (if take 8 s = ''data-id='' then quoted (drop 8 s) else None)"

fun scan_ids :: "nat \<Rightarrow> string \<Rightarrow> string list" where
  "scan_ids k [] = []"
| "scan_ids (Suc k) (c # cs) = scan_ids k cs"
| "scan_ids 0 (c # cs) =
     (case data_id_cs_at (c # cs) of
        None \<Rightarrow> scan_ids 0 cs
      | Some v \<Rightarrow> v # scan_ids (length v + 9) cs)"

text \<open>
  The \<open>else\<close> branch of the first loop, on an entry that is an object:
  \<open>Number.isFinite\<close> holds of the finite numbers only. On any other truthy value the
  three assignments add nothing that is written.
\<close>

definition finite_or_zero :: "json option \<Rightarrow> json" where
  "finite_or_zero x = (case x of Some (JNum n) \<Rightarrow> JNum n | _ \<Rightarrow> JNum 0)"

definition array_or_empty :: "json option \<Rightarrow> json" where
  "array_or_empty x = (case x of Some (JArr a) \<Rightarrow> JArr a | _ \<Rightarrow> JArr [])"

definition normalize_entry :: "json \<Rightarrow> json" where
  "normalize_entry e =
     (case e of
        JObj ob \<Rightarrow>
          let o1 = AList.update ''views'' (finite_or_zero (map_of ob ''views'')) ob;
              o2 = AList.update ''hearts'' (finite_or_zero (map_of o1 ''hearts'')) o1;
              o3 = AList.update ''usersHearted''
                     (array_or_empty (map_of o2 ''usersHearted'')) o2
          in JObj o3
      | _ \<Rightarrow> e)"

text \<open>
  \<open>ids.forEach(id => { if (!views[id]) { ... added++ } else { ... } })\<close>. For a key that
  \<open>views\<close> lacks and inherits, the \<open>else\<close> branch writes to a function, which changes
  nothing that is written, or, under the name \<open>__proto__\<close>, to \<open>Object.prototype\<close>:
  every object then inherits \<open>views = 0\<close>, \<open>hearts = 0\<close> and an empty array
  \<open>usersHearted\<close>, so that from there on \<open>views['usersHearted']\<close> is truthy for an object
  that lacks the key (the other two values are falsy, as \<open>undefined\<close> is). The last
  argument tells whether that has happened. An entry that lacks one of the three
  properties gets the same values with and without it.
\<close>

fun add_missing :: "string list \<Rightarrow> jobject \<Rightarrow> nat \<Rightarrow> bool \<Rightarrow> jobject \<times> nat" where
  "add_missing [] views_obj n_added polluted = (views_obj, n_added)"
| "add_missing (i # ids) views_obj n_added polluted =
     (if \<not> (has_entry views_obj i \<or>
             (polluted \<and> map_of views_obj i = None \<and> i = ''usersHearted''))
      then add_missing ids (AList.update i zero_json views_obj) (n_added + 1) polluted
      else case map_of views_obj i of
             Some e \<Rightarrow>
               add_missing ids (AList.update i (normalize_entry e) views_obj) n_added polluted
           | None \<Rightarrow> add_missing ids views_obj n_added (polluted \<or> i = ''__proto__''))"

text \<open>
  \<open>Object.keys(views).forEach(id => { if (!ids.includes(id)) { delete views[id]; removed++ } })\<close>,
  over the keys as they were when the loop started.
\<close>

fun remove_extra :: "string list \<Rightarrow> string list \<Rightarrow> jobject \<Rightarrow> nat \<Rightarrow> jobject \<times> nat" where
  "remove_extra [] ids views_obj n_removed = (views_obj, n_removed)"
| "remove_extra (k # keys) ids views_obj n_removed =
     (if k \<notin> set ids then remove_extra keys ids (AList.delete k views_obj) (n_removed + 1)
      else remove_extra keys ids views_obj n_removed)"

record summary =
  s_scanned :: nat
  s_added :: nat
  s_removed :: nat

definition reconcile :: "string list \<Rightarrow> jobject \<Rightarrow> jobject \<times> summary" where
  "reconcile ids views_obj =
     (let (v1, a) = add_missing ids views_obj 0 False;
          (v2, r) = remove_extra (map fst v1) ids v1 0
      in (v2, \<lparr>s_scanned = length ids, s_added = a, s_removed = r\<rparr>))"

definition reconciler_script :: "string \<Rightarrow> jobject \<Rightarrow> jobject \<times> summary" where
  "reconciler_script html views_obj = reconcile (scan_ids 0 html) views_obj"

text \<open>An entry of the shape the server writes: two finite numbers and an array.\<close>

definition is_num :: "json option \<Rightarrow> bool" where
  "is_num x = (case x of Some (JNum n) \<Rightarrow> True | _ \<Rightarrow> False)"

definition is_arr :: "json option \<Rightarrow> bool" where
  "is_arr x = (case x of Some (JArr a) \<Rightarrow> True | _ \<Rightarrow> False)"

definition entry_shaped :: "json \<Rightarrow> bool" where
  "entry_shaped e =
     (case e of
        JObj ob \<Rightarrow> is_num (map_of ob ''views'') \<and> is_num (map_of ob ''hearts'') \<and>
                   is_arr (map_of ob ''usersHearted'')
      | _ \<Rightarrow> False)"

section \<open>The reachability probe of \<open>fix-images.js\<close>\<close>

text \<open>
  \<open>checkUrl\<close> builds a promise around one HTTP request. The services it calls are
  parameters of the model: \<open>lower\<close> is \<open>toLowerCase\<close>,
  \<open>parse_url\<close> is \<open>new URL(url)\<close>, \<open>None\<close> where the constructor
  throws, and \<open>net\<close> gives, for the request options, the first thing that happens to the
  request, which is what settles the promise (a promise keeps its first resolution;
  the later \<open>resolve\<close> calls have no effect).
\<close>

record url =
  protocol :: string
  hostname :: string
  pathname :: string
  search :: string
  port :: string

datatype port_value = PortText string | PortNumber nat

record request_options =
  over_https :: bool
  req_hostname :: string
  req_path :: string
  req_port :: port_value
  req_timeout :: nat

datatype net_event =
  Response int "string option"
| NetError
| Timeout
| RequestThrows

record probe_result =
  ok :: bool
  status :: "int option"
  contentType :: "string option"

definition request_for :: "url \<Rightarrow> nat \<Rightarrow> request_options" where
  "request_for u timeout =
     \<lparr>over_https = (protocol u = ''https:''),
      req_hostname = hostname u,
      req_path = pathname u @ search u,
      req_port = (if port u \<noteq> [] then PortText (port u)
                  else PortNumber (if protocol u = ''https:'' then 443 else 80)),
      req_timeout = timeout\<rparr>"

text \<open>\<open>resolve({ ok: false })\<close>\<close>

definition not_ok :: probe_result where
  "not_ok = \<lparr>ok = False, status = None, contentType = None\<rparr>"

text \<open>The response callback; \<open>header\<close> is \<open>res.headers['content-type']\<close>.\<close>

definition on_response :: "(string \<Rightarrow> string) \<Rightarrow> int \<Rightarrow> string option \<Rightarrow> probe_result" where
  "on_response lower statusCode header =
     (let ct = lower (case header of None \<Rightarrow> [] | Some h \<Rightarrow> h)
      in \<lparr>ok = (200 \<le> statusCode \<and> statusCode < 300 \<and> take 5 ct = ''image''),
          status = Some statusCode, contentType = Some ct\<rparr>)"

definition checkUrl ::
  "(string \<Rightarrow> string) \<Rightarrow> (string \<Rightarrow> url option) \<Rightarrow> (request_options \<Rightarrow> net_event) \<Rightarrow> string \<Rightarrow>
   nat \<Rightarrow> probe_result" where
  "checkUrl lower parse_url net u timeout =
     (case parse_url u of
        None \<Rightarrow> not_ok
      | Some parsed \<Rightarrow>
          (case net (request_for parsed timeout) of
             Response statusCode header \<Rightarrow> on_response lower statusCode header
           | NetError \<Rightarrow> not_ok
           | Timeout \<Rightarrow> not_ok
           | RequestThrows \<Rightarrow> not_ok))"

section \<open>Auxiliary functions and examples\<close>

text \<open>The source of a block whose \<open>src\<close> is a string.\<close>

definition bsrc :: "string \<Rightarrow> string" where
  "bsrc b = the (block_src b)"

text \<open>
  The results that the second loop keeps, from the two sets it starts with; and the
  result that the first loop gives to a block it keeps. Both serve the proofs only.
\<close>

fun keeps :: "(string \<Rightarrow> string) \<Rightarrow> string list \<Rightarrow> string list \<Rightarrow> result list \<Rightarrow> result list" where
  "keeps norm ids srcs [] = []"
| "keeps norm ids srcs (r # rs) =
     (let n = norm (src_of r);
          srcs' = (if n \<noteq> [] then set_add n srcs else srcs) in
      if \<not> r_ok r then keeps norm (set_add (r_id r) ids) srcs' rs
      else if r_id r \<in> set ids then keeps norm ids srcs rs
      else if n \<noteq> [] \<and> n \<in> set srcs then keeps norm (set_add (r_id r) ids) srcs rs
      else r # keeps norm (set_add (r_id r) ids) srcs' rs)"

definition ok_result :: "string \<Rightarrow> result" where
  "ok_result b = \<lparr>r_id = block_id b, r_src = block_src b, r_ok = True,
     r_reason = (if is_http (the (block_src b)) then Reachable else Local), r_block = b\<rparr>"

text \<open>
  The entry that the first loop of the reconciler script leaves for a scanned id that
  the ledger has or does not inherit; an id that the ledger lacks and inherits; a scan
  that does not write to \<open>Object.prototype\<close>; and an entry that the update in
  \<open>fix-images.js\<close> copies.
\<close>

definition filled :: "jobject \<Rightarrow> string \<Rightarrow> json" where
  "filled ob i =
     (case map_of ob i of
        None \<Rightarrow> zero_json
      | Some e \<Rightarrow> if js_truthy e then normalize_entry e else zero_json)"

definition hidden :: "jobject \<Rightarrow> string \<Rightarrow> bool" where
  "hidden ob i = (map_of ob i = None \<and> inherited i)"

definition unpolluted :: "string list \<Rightarrow> jobject \<Rightarrow> bool" where
  "unpolluted ids ob = (''__proto__'' \<in> set ids \<longrightarrow> map_of ob ''__proto__'' \<noteq> None)"

definition copied :: "jobject \<Rightarrow> string \<Rightarrow> bool" where
  "copied ob i =
     (case map_of ob i of None \<Rightarrow> False | Some e \<Rightarrow> js_truthy e \<and> i \<noteq> ''__proto__'')"

text \<open>
  Example inputs. \<open>example_href\<close> agrees with the \<open>URL\<close> class on the sources below:
  an absolute source loses its query, a relative one makes the constructor throw.
\<close>

definition example_href :: "string \<Rightarrow> string option" where
  "example_href s = (if is_http s then Some (takeWhile (\<lambda>c. c \<noteq> CHR ''?'') s) else None)"

text \<open>A probe that finds nothing reachable, and a \<open>URL\<close> class that takes no string.\<close>

definition never_reachable :: "string \<Rightarrow> bool" where
  "never_reachable u = False"

definition no_url :: "string \<Rightarrow> string option" where
  "no_url s = None"

definition example_probe :: "string \<Rightarrow> bool" where
  "example_probe u = (u = ''http://h/x.png'')"

definition block_a :: string where
  "block_a = ''<div data-id='a'><img src='http://h/x.png'></div>''"

definition block_b :: string where
  "block_b = ''<div data-id='b'><img src='http://h/x.png?v=2'></div>''"

definition block_c :: string where
  "block_c = ''<div data-id='c'><img src='Cat.PNG'></div>''"

definition block_d :: string where
  "block_d = ''<div data-id='d'><img src='cat.png'></div>''"

definition block_a2 :: string where
  "block_a2 = ''<div data-id='a'><img src='other.png'></div>''"

definition block_e :: string where
  "block_e = ''<div data-id='e'></div>''"

definition example_blocks :: "string list" where
  "example_blocks = [block_a, block_b, block_c, block_d, block_a2, block_e]"

definition example_entry :: "rat \<Rightarrow> rat \<Rightarrow> json" where
  "example_entry v h = JObj [(''views'', JNum v), (''hearts'', JNum h), (''usersHearted'', JArr [])]"

definition ledger_abc :: jobject where
  "ledger_abc = [(''a'', example_entry 3 1), (''b'', example_entry 5 0), (''c'', example_entry 7 2)]"

definition gallery_page :: string where
  "gallery_page =
     ''<section class='gallery'><div class='image-container' data-id='a'><img src='a.png'></div></section>''"

definition gallery_page_b :: string where
  "gallery_page_b =
     ''<section class='gallery'><div class='image-container' data-id='b'></div></section>''"

definition example_url :: url where
  "example_url = \<lparr>protocol = ''http:'', hostname = ''h'', pathname = ''/x.png'', search = [],
     port = []\<rparr>"

section \<open>Properties of the engagement server\<close>

subsection \<open>Lookups and the entry of an id\<close>








lemma get_upd_other: "j \<noteq> k \<Longrightarrow> get (m(k \<mapsto> v)) j = get m j"
  by (simp add: get_def)










subsection \<open>What a heart request does\<close>












subsection \<open>What a view request does\<close>













subsection \<open>Invariants over all request sequences\<close>


















subsection \<open>Heart count and heartedBy\<close>



lemmas eval_defs = heart_def view_def query_def flags_def bump_views_def push_viewed_def
  toggle_list_def array_from_set_def register_def initial_server_def ensure_entry_def
  saveData_def saveUsers_def caller_def entry_of_def zero_entry_def get_def present_def
  or_zero_def or_empty_def function_names_def js_succ_def Let_def


subsection \<open>heartedItems mirrors heartedBy\<close>






subsection \<open>The query\<close>






subsection \<open>Views by a registered user\<close>

lemma repeat_view_1: "repeat_view (Suc 0) ido userId s = map_option snd (view ido userId s)"
  by simp







subsection \<open>Views with an unknown user id\<close>





subsection \<open>Names that the two objects inherit\<close>

text \<open>
  The conditions \<open>users[userId]\<close> and \<open>!data[id]\<close> look a name up in \<open>Object.prototype\<close>
  as well. A view whose user header is \<open>constructor\<close> takes the branch of a signed-in
  user and throws before it counts; a heart by that name passes the login test and is
  counted; a query for the id \<open>constructor\<close> creates no entry, and throws when a user is
  supplied; and the name cannot be registered.
\<close>

lemma view_inherited_user_throws:
  "view (Some ''x'') (Some ''constructor'') initial_server =
     Some (Inl TypeError, initial_server\<lparr>data := [''x'' \<mapsto> zero_entry]\<rparr>)"
  by (simp add: eval_defs)

lemma heart_inherited_user_accepted:
  "map_option fst (heart (Some ''x'') (Some ''constructor'') initial_server) =
     Some (Inr \<lparr>r_views = 0, r_hearts = 1, userHasHearted = True, userHasViewed = None\<rparr>)"
  by (simp add: eval_defs fcard_finsert_if)

lemma query_inherited_id:
  "query ''constructor'' None initial_server =
     (Inr \<lparr>r_views = 0, r_hearts = 0, userHasHearted = False, userHasViewed = Some False\<rparr>,
      initial_server) \<and>
   query ''constructor'' (Some ''u'') initial_server = (Inl TypeError, initial_server)"
  by (simp add: eval_defs)

lemma register_inherited_name:
  "register ''constructor'' ''e'' ''p'' initial_server = initial_server"
  by (simp add: eval_defs)

section \<open>Properties of the deduplicator\<close>

lemma set_set_add [simp]: "set (set_add x xs) = insert x (set xs)"
  by (auto simp: set_add_def)

lemma pass2_step_kept:
  "kept (pass2_step norm st r) =
     (if r_ok r \<and> r_id r \<notin> set (seenFinalIds st) \<and>
         \<not> (norm (src_of r) \<noteq> [] \<and> norm (src_of r) \<in> set (seenFinalSrcs st))
      then kept st @ [r_block r] else kept st)"
  by (simp add: pass2_step_def Let_def)

lemma pass2_step_removed:
  "length (removed (pass2_step norm st r)) =
     (if r_ok r \<and> r_id r \<notin> set (seenFinalIds st) \<and>
         \<not> (norm (src_of r) \<noteq> [] \<and> norm (src_of r) \<in> set (seenFinalSrcs st))
      then length (removed st) else Suc (length (removed st)))"
  by (simp add: pass2_step_def Let_def)

lemma pass2_step_ids:
  "seenFinalIds (pass2_step norm st r) =
     (if r_ok r \<and> r_id r \<in> set (seenFinalIds st) then seenFinalIds st
      else set_add (r_id r) (seenFinalIds st))"
  by (simp add: pass2_step_def Let_def)

lemma pass2_step_srcs:
  "seenFinalSrcs (pass2_step norm st r) =
     (if norm (src_of r) \<noteq> [] \<and>
         (\<not> r_ok r \<or> (r_id r \<notin> set (seenFinalIds st) \<and>
            norm (src_of r) \<notin> set (seenFinalSrcs st)))
      then set_add (norm (src_of r)) (seenFinalSrcs st) else seenFinalSrcs st)"
  by (simp add: pass2_step_def Let_def)

lemma pass2_foldl_kept:
  "kept (foldl (pass2_step norm) st rs) =
     kept st @ map r_block (keeps norm (seenFinalIds st) (seenFinalSrcs st) rs)"
proof (induction rs arbitrary: st)
  case Nil
  show ?case by simp
next
  case (Cons r rs)
  have "kept (foldl (pass2_step norm) st (r # rs)) =
      kept (pass2_step norm st r) @ map r_block (keeps norm
        (seenFinalIds (pass2_step norm st r)) (seenFinalSrcs (pass2_step norm st r)) rs)"
    using Cons.IH [of "pass2_step norm st r"] by simp
  then show ?case
    by (simp add: pass2_step_kept pass2_step_ids pass2_step_srcs Let_def)
qed

lemma pass2_foldl_length:
  "length (kept (foldl (pass2_step norm) st rs)) +
     length (removed (foldl (pass2_step norm) st rs)) =
   length (kept st) + length (removed st) + length rs"
proof (induction rs arbitrary: st)
  case Nil
  show ?case by simp
next
  case (Cons r rs)
  have "length (kept (foldl (pass2_step norm) st (r # rs))) +
      length (removed (foldl (pass2_step norm) st (r # rs))) =
      length (kept (pass2_step norm st r)) + length (removed (pass2_step norm st r)) + length rs"
    using Cons.IH [of "pass2_step norm st r"] by simp
  then show ?case
    by (simp add: pass2_step_kept pass2_step_removed)
qed

lemma keeps_subseq: "subseq (keeps norm ids srcs rs) (filter r_ok rs)"
  by (induction rs arbitrary: ids srcs) (auto simp: Let_def)

lemma keeps_norms:
  "distinct (filter (\<lambda>n. n \<noteq> []) (map (\<lambda>r. norm (src_of r)) (keeps norm ids srcs rs))) \<and>
   (\<forall>r \<in> set (keeps norm ids srcs rs). norm (src_of r) \<noteq> [] \<longrightarrow> norm (src_of r) \<notin> set srcs)"
proof (induction rs arbitrary: ids srcs)
  case Nil
  show ?case by simp
next
  case (Cons r rs)
  show ?case
    using Cons.IH [of "set_add (r_id r) ids" "set_add (norm (src_of r)) srcs"]
      Cons.IH [of "set_add (r_id r) ids" srcs] Cons.IH [of ids srcs]
    by (auto simp: Let_def)
qed

lemma pass1_blocks: "map r_block (pass1 probe S T bs) = bs"
  by (induction bs arbitrary: S T) (auto simp: Let_def)

lemma pass1_ok_ids:
  "distinct (map r_id (filter r_ok (pass1 probe S T bs))) \<and>
   (\<forall>r \<in> set (pass1 probe S T bs). r_ok r \<longrightarrow> r_id r \<notin> set S)"
proof (induction bs arbitrary: S T)
  case Nil
  show ?case by simp
next
  case (Cons b bs)
  show ?case
    using Cons.IH [of S T] Cons.IH [of "set_add (block_id b) S" T]
      Cons.IH [of "set_add (block_id b) S" "set_add (the (block_src b)) T"]
    by (auto simp: Let_def)
qed

lemma pass1_ok_srcs:
  "distinct (map src_of (filter r_ok (pass1 probe S T bs))) \<and>
   (\<forall>r \<in> set (pass1 probe S T bs). r_ok r \<longrightarrow> src_of r \<notin> set T)"
proof (induction bs arbitrary: S T)
  case Nil
  show ?case by simp
next
  case (Cons b bs)
  show ?case
    using Cons.IH [of S T] Cons.IH [of "set_add (block_id b) S" T]
      Cons.IH [of "set_add (block_id b) S" "set_add (the (block_src b)) T"]
    by (auto simp: Let_def src_of_def)
qed


lemma pass1_fixed:
  "distinct (map block_id ks) \<Longrightarrow> \<forall>b \<in> set ks. block_id b \<notin> set S \<Longrightarrow>
   distinct (map bsrc ks) \<Longrightarrow> \<forall>b \<in> set ks. bsrc b \<notin> set T \<Longrightarrow>
   \<forall>b \<in> set ks. src_truthy (block_src b) \<and> (is_http (bsrc b) \<longrightarrow> probe (bsrc b)) \<Longrightarrow>
   pass1 probe S T ks = map ok_result ks"
proof (induction ks arbitrary: S T)
  case Nil
  show ?case by simp
next
  case (Cons b ks)
  have "pass1 probe (set_add (block_id b) S) (set_add (bsrc b) T) ks = map ok_result ks"
    using Cons.prems by (intro Cons.IH) (force simp: image_iff)+
  then show ?case
    using Cons.prems by (auto simp: Let_def ok_result_def bsrc_def)
qed

lemma keeps_fixed:
  "distinct (map block_id ks) \<Longrightarrow> \<forall>b \<in> set ks. block_id b \<notin> set S \<Longrightarrow>
   distinct (filter (\<lambda>n. n \<noteq> []) (map (\<lambda>b. norm (bsrc b)) ks)) \<Longrightarrow>
   \<forall>b \<in> set ks. norm (bsrc b) \<noteq> [] \<longrightarrow> norm (bsrc b) \<notin> set T \<Longrightarrow>
   \<forall>b \<in> set ks. src_truthy (block_src b) \<Longrightarrow>
   keeps norm S T (map ok_result ks) = map ok_result ks"
proof (induction ks arbitrary: S T)
  case Nil
  show ?case by simp
next
  case (Cons b ks)
  have so: "src_of (ok_result b) = bsrc b"
    using Cons.prems by (simp add: src_of_def ok_result_def bsrc_def)
  have a: "keeps norm (set_add (block_id b) S) (set_add (norm (bsrc b)) T) (map ok_result ks) =
      map ok_result ks" if "norm (bsrc b) \<noteq> []"
    using Cons.prems that by (intro Cons.IH) (force simp: image_iff split: if_splits)+
  have b: "keeps norm (set_add (block_id b) S) T (map ok_result ks) = map ok_result ks"
    if "norm (bsrc b) = []"
    using Cons.prems that by (intro Cons.IH) (force simp: image_iff split: if_splits)+
  show ?case
    using Cons.prems a b by (auto simp: Let_def so) (auto simp: ok_result_def)
qed

lemma pass1_ok_fields:
  "r \<in> set (pass1 probe S T bs) \<Longrightarrow> r_ok r \<Longrightarrow>
     r_id r = block_id (r_block r) \<and> src_of r = bsrc (r_block r) \<and>
     src_truthy (block_src (r_block r)) \<and>
     (is_http (bsrc (r_block r)) \<longrightarrow> probe (bsrc (r_block r)))"
  by (induction bs arbitrary: S T) (auto simp: Let_def src_of_def bsrc_def split: if_splits)

lemma subseq_set_mono_aux: "subseq xs ys \<Longrightarrow> set xs \<subseteq> set ys"
  by (induction rule: list_emb.induct) auto

lemma subseq_distinct_aux: "subseq xs ys \<Longrightarrow> distinct ys \<Longrightarrow> distinct xs"
proof (induction rule: list_emb.induct)
  case (list_emb_Cons2 x y xs ys)
  then show ?case using subseq_set_mono_aux [of xs ys] by auto
qed auto

lemma dedup_kept: "kept (dedup lower probe h bs) =
    map r_block (keeps (normalizeSrc lower h) [] [] (pass1 probe [] [] bs))"
  by (simp add: dedup_def pass2_def pass2_foldl_kept)

lemma dedup_fixed:
  assumes "distinct (map block_id ks)" and "distinct (map bsrc ks)"
    and "distinct (filter (\<lambda>n. n \<noteq> []) (map (\<lambda>b. normalizeSrc lower h (bsrc b)) ks))"
    and "\<forall>b \<in> set ks. src_truthy (block_src b) \<and> (is_http (bsrc b) \<longrightarrow> probe (bsrc b))"
  shows "kept (dedup lower probe h ks) = ks"
proof -
  have 1: "pass1 probe [] [] ks = map ok_result ks"
    using assms by (intro pass1_fixed) auto
  have 2: "keeps (normalizeSrc lower h) [] [] (map ok_result ks) = map ok_result ks"
    using assms by (intro keeps_fixed) auto
  show ?thesis
    by (simp add: dedup_kept 1 2 ok_result_def comp_def)
qed

lemma dedup_kept_good:
  defines "ks \<equiv> \<lambda>lower probe h bs. kept (dedup lower probe h bs)"
  shows "distinct (map block_id (ks lower probe h bs))"
    and "distinct (map bsrc (ks lower probe h bs))"
    and "distinct (filter (\<lambda>n. n \<noteq> []) (map (\<lambda>b. normalizeSrc lower h (bsrc b)) (ks lower probe h bs)))"
    and "\<forall>b \<in> set (ks lower probe h bs). src_truthy (block_src b) \<and> (is_http (bsrc b) \<longrightarrow> probe (bsrc b))"
proof -
  let ?rs = "pass1 probe [] [] bs"
  let ?kr = "keeps (normalizeSrc lower h) [] [] ?rs"
  have ks: "ks lower probe h bs = map r_block ?kr"
    by (simp add: ks_def dedup_kept)
  have sub: "subseq ?kr (filter r_ok ?rs)" by (rule keeps_subseq)
  then have mem: "r \<in> set ?rs \<and> r_ok r" if "r \<in> set ?kr" for r
    using that subseq_set_mono_aux [OF sub] by auto
  have shape: "r_id r = block_id (r_block r) \<and> src_of r = bsrc (r_block r) \<and>
     src_truthy (block_src (r_block r)) \<and>
     (is_http (bsrc (r_block r)) \<longrightarrow> probe (bsrc (r_block r)))" if "r \<in> set ?kr" for r
    using pass1_ok_fields [of r probe "[]" "[]" bs] mem [OF that] by simp
  have id_eq: "map block_id (map r_block ?kr) = map r_id ?kr"
    using shape by simp
  have src_eq: "map bsrc (map r_block ?kr) = map src_of ?kr"
    using shape by simp
  have "distinct (map r_id (filter r_ok ?rs))" using pass1_ok_ids by blast
  then have "distinct (map r_id ?kr)"
    using sub by (meson subseq_distinct_aux subseq_map)
  then show "distinct (map block_id (ks lower probe h bs))" by (simp only: ks id_eq)
  have "distinct (map src_of (filter r_ok ?rs))" using pass1_ok_srcs by blast
  then have "distinct (map src_of ?kr)"
    using sub by (meson subseq_distinct_aux subseq_map)
  then show "distinct (map bsrc (ks lower probe h bs))" by (simp only: ks src_eq)
  have "map (\<lambda>b. normalizeSrc lower h (bsrc b)) (map r_block ?kr) =
      map (\<lambda>r. normalizeSrc lower h (src_of r)) ?kr"
    using shape by simp
  then show "distinct (filter (\<lambda>n. n \<noteq> []) (map (\<lambda>b. normalizeSrc lower h (bsrc b)) (ks lower probe h bs)))"
    using keeps_norms [of "normalizeSrc lower h" "[]" "[]" ?rs] by (simp only: ks)
  show "\<forall>b \<in> set (ks lower probe h bs). src_truthy (block_src b) \<and> (is_http (bsrc b) \<longrightarrow> probe (bsrc b))"
    using shape by (auto simp: ks)
qed

text \<open>
  Claim C9. With the probe and the normalization fixed, running both loops on the blocks
  that a run keeps gives the same blocks again, and the second run removes none.
\<close>

theorem dedup_idempotent:
  "kept (dedup lower probe h (kept (dedup lower probe h bs))) = kept (dedup lower probe h bs) \<and>
   removed (dedup lower probe h (kept (dedup lower probe h bs))) = []"
proof -
  let ?ks = "kept (dedup lower probe h bs)"
  have k: "kept (dedup lower probe h ?ks) = ?ks"
    by (intro dedup_fixed dedup_kept_good)
  have "length (kept (dedup lower probe h ?ks)) + length (removed (dedup lower probe h ?ks)) =
      length (pass1 probe [] [] ?ks)"
    using pass2_foldl_length [of "normalizeSrc lower h" _ "pass1 probe [] [] ?ks"]
    by (simp add: dedup_def pass2_def)
  also have "\<dots> = length ?ks"
    using pass1_blocks [of probe "[]" "[]" ?ks] by (metis length_map)
  finally have "removed (dedup lower probe h ?ks) = []" by (simp add: k)
  with k show ?thesis by simp
qed

theorem dedup_idempotent_witness:
  "kept (dedup ascii_lower example_probe example_href example_blocks) = [block_a, block_c] \<and>
   kept (dedup ascii_lower example_probe example_href [block_a, block_c]) = [block_a, block_c] \<and>
   removed (dedup ascii_lower example_probe example_href [block_a, block_c]) = []"
proof -
  have k: "kept (dedup ascii_lower example_probe example_href example_blocks) = [block_a, block_c]"
    by code_simp
  show ?thesis
    using dedup_idempotent [of ascii_lower example_probe example_href example_blocks] by (simp add: k)
qed

text \<open>
  Claim C2, as stated, fails. Block \<open>b\<close> has a new id, and its normalized source is not
  empty and already is in the set of normalized sources, put there by block \<open>a\<close>; step 2
  of the claim drops it as a duplicate source, but the run has probed it in the first
  loop and reports it as unreachable.
\<close>

theorem dedup_order_counterexample:
  "block_id block_b \<notin> set (seenFinalIds (dedup ascii_lower example_probe example_href [block_a])) \<and>
   normalizeSrc ascii_lower example_href (bsrc block_b) \<noteq> [] \<and>
   normalizeSrc ascii_lower example_href (bsrc block_b) \<in>
     set (seenFinalSrcs (dedup ascii_lower example_probe example_href [block_a])) \<and>
   map rm_reason (removed (dedup ascii_lower example_probe example_href [block_a, block_b])) = [Unreachable]"
  by code_simp

text \<open>
  Claim C2, amended. The deduplicator decides in two loops. The first decides each block
  in the fixed order: the id already is in \<open>seenIds\<close> (duplicate id); else the source is
  not empty and already is in \<open>seenSrcs\<close>, which holds the sources as written (duplicate
  source, and the id is added to \<open>seenIds\<close>); else the source is empty (no source); else
  it has no network scheme (kept, local); else it is kept if and only if the probe
  reports ok (reachable, unreachable). The second loop removes every result that the
  first did not keep, under the reason of the first, and of those that the first kept it
  removes the ones whose id is in \<open>seenFinalIds\<close> (duplicate id) or whose normalized
  source is not empty and is in \<open>seenFinalSrcs\<close> (duplicate source, and the id is added to
  \<open>seenFinalIds\<close>), and keeps the others. Every block gets one decision, and the kept
  blocks are a subsequence of the input: they retain its order.
\<close>

theorem dedup_two_passes:
  "(block_id b \<in> set S \<longrightarrow>
      pass1 probe S T (b # bs) =
        \<lparr>r_id = block_id b, r_src = block_src b, r_ok = False, r_reason = DuplicateId,
          r_block = b\<rparr> # pass1 probe S T bs) \<and>
   (block_id b \<notin> set S \<and> src_truthy (block_src b) \<and> bsrc b \<in> set T \<longrightarrow>
      pass1 probe S T (b # bs) =
        \<lparr>r_id = block_id b, r_src = block_src b, r_ok = False, r_reason = DuplicateSrc,
          r_block = b\<rparr> # pass1 probe (set_add (block_id b) S) T bs) \<and>
   (block_id b \<notin> set S \<and> \<not> src_truthy (block_src b) \<longrightarrow>
      pass1 probe S T (b # bs) =
        \<lparr>r_id = block_id b, r_src = None, r_ok = False, r_reason = NoSrc,
          r_block = b\<rparr> # pass1 probe (set_add (block_id b) S) T bs) \<and>
   (block_id b \<notin> set S \<and> src_truthy (block_src b) \<and> bsrc b \<notin> set T \<longrightarrow>
      pass1 probe S T (b # bs) =
        \<lparr>r_id = block_id b, r_src = block_src b,
          r_ok = (\<not> is_http (bsrc b) \<or> probe (bsrc b)),
          r_reason = (if \<not> is_http (bsrc b) then Local
                      else if probe (bsrc b) then Reachable else Unreachable),
          r_block = b\<rparr> # pass1 probe (set_add (block_id b) S) (set_add (bsrc b) T) bs) \<and>
   (\<not> r_ok r \<longrightarrow>
      pass2_step norm st r =
        st\<lparr>removed := removed st @
               [\<lparr>rm_id = r_id r, rm_src = src_of r, rm_reason = r_reason r\<rparr>],
            seenFinalIds := set_add (r_id r) (seenFinalIds st),
            seenFinalSrcs := (if norm (src_of r) \<noteq> []
                              then set_add (norm (src_of r)) (seenFinalSrcs st)
                              else seenFinalSrcs st)\<rparr>) \<and>
   (r_ok r \<and> r_id r \<in> set (seenFinalIds st) \<longrightarrow>
      pass2_step norm st r =
        st\<lparr>removed := removed st @
               [\<lparr>rm_id = r_id r, rm_src = src_of r, rm_reason = DuplicateId\<rparr>]\<rparr>) \<and>
   (r_ok r \<and> r_id r \<notin> set (seenFinalIds st) \<and> norm (src_of r) \<noteq> [] \<and>
    norm (src_of r) \<in> set (seenFinalSrcs st) \<longrightarrow>
      pass2_step norm st r =
        st\<lparr>removed := removed st @
               [\<lparr>rm_id = r_id r, rm_src = src_of r, rm_reason = DuplicateSrc\<rparr>],
            seenFinalIds := set_add (r_id r) (seenFinalIds st)\<rparr>) \<and>
   (r_ok r \<and> r_id r \<notin> set (seenFinalIds st) \<and>
    \<not> (norm (src_of r) \<noteq> [] \<and> norm (src_of r) \<in> set (seenFinalSrcs st)) \<longrightarrow>
      pass2_step norm st r =
        st\<lparr>kept := kept st @ [r_block r],
            seenFinalIds := set_add (r_id r) (seenFinalIds st),
            seenFinalSrcs := (if norm (src_of r) \<noteq> []
                              then set_add (norm (src_of r)) (seenFinalSrcs st)
                              else seenFinalSrcs st)\<rparr>) \<and>
   map r_block (pass1 probe [] [] blocks) = blocks \<and>
   subseq (kept (dedup lower probe h blocks)) blocks \<and>
   length (kept (dedup lower probe h blocks)) + length (removed (dedup lower probe h blocks)) =
     length blocks \<and>
   distinct (map block_id (kept (dedup lower probe h blocks))) \<and>
   (\<forall>k \<in> set (kept (dedup lower probe h blocks)).
      src_truthy (block_src k) \<and> (is_http (bsrc k) \<longrightarrow> probe (bsrc k)))"
proof -
  have p1: "map r_block (pass1 probe [] [] blocks) = blocks" by (rule pass1_blocks)
  have "subseq (map r_block (keeps (normalizeSrc lower h) [] [] (pass1 probe [] [] blocks)))
      (map r_block (pass1 probe [] [] blocks))"
    using keeps_subseq [of "normalizeSrc lower h" "[]" "[]" "pass1 probe [] [] blocks"]
    by (meson subseq_filter_left subseq_map subseq_order.order_trans)
  then have p2: "subseq (kept (dedup lower probe h blocks)) blocks"
    by (simp add: dedup_kept p1)
  have p3: "length (kept (dedup lower probe h blocks)) + length (removed (dedup lower probe h blocks)) =
     length blocks"
    using pass2_foldl_length [of "normalizeSrc lower h" _ "pass1 probe [] [] blocks"]
      pass1_blocks [of probe "[]" "[]" blocks]
    by (simp add: dedup_def pass2_def) (metis length_map)
  have p4: "distinct (map block_id (kept (dedup lower probe h blocks)))"
    by (rule dedup_kept_good)
  have p5: "\<forall>k \<in> set (kept (dedup lower probe h blocks)).
      src_truthy (block_src k) \<and> (is_http (bsrc k) \<longrightarrow> probe (bsrc k))"
    by (rule dedup_kept_good)
  have steps: "(block_id b \<in> set S \<longrightarrow>
      pass1 probe S T (b # bs) =
        \<lparr>r_id = block_id b, r_src = block_src b, r_ok = False, r_reason = DuplicateId,
          r_block = b\<rparr> # pass1 probe S T bs) \<and>
   (block_id b \<notin> set S \<and> src_truthy (block_src b) \<and> bsrc b \<in> set T \<longrightarrow>
      pass1 probe S T (b # bs) =
        \<lparr>r_id = block_id b, r_src = block_src b, r_ok = False, r_reason = DuplicateSrc,
          r_block = b\<rparr> # pass1 probe (set_add (block_id b) S) T bs) \<and>
   (block_id b \<notin> set S \<and> \<not> src_truthy (block_src b) \<longrightarrow>
      pass1 probe S T (b # bs) =
        \<lparr>r_id = block_id b, r_src = None, r_ok = False, r_reason = NoSrc,
          r_block = b\<rparr> # pass1 probe (set_add (block_id b) S) T bs) \<and>
   (block_id b \<notin> set S \<and> src_truthy (block_src b) \<and> bsrc b \<notin> set T \<longrightarrow>
      pass1 probe S T (b # bs) =
        \<lparr>r_id = block_id b, r_src = block_src b,
          r_ok = (\<not> is_http (bsrc b) \<or> probe (bsrc b)),
          r_reason = (if \<not> is_http (bsrc b) then Local
                      else if probe (bsrc b) then Reachable else Unreachable),
          r_block = b\<rparr> # pass1 probe (set_add (block_id b) S) (set_add (bsrc b) T) bs)"
    by (simp add: Let_def bsrc_def)
  show ?thesis
    using steps p1 p2 p3 p4 p5 by (simp add: Let_def pass2_step_def)
qed

theorem dedup_two_passes_witness:
  "block_id block_a \<notin> set [] \<and> src_truthy (block_src block_a) \<and> bsrc block_a \<notin> set [] \<and>
   pass1 example_probe [] [] (block_a # [block_b]) =
      \<lparr>r_id = block_id block_a, r_src = block_src block_a,
        r_ok = (\<not> is_http (bsrc block_a) \<or> example_probe (bsrc block_a)),
        r_reason = (if \<not> is_http (bsrc block_a) then Local
                    else if example_probe (bsrc block_a) then Reachable else Unreachable),
        r_block = block_a\<rparr>
      # pass1 example_probe (set_add (block_id block_a) []) (set_add (bsrc block_a) [])
          [block_b] \<and>
   map r_reason (pass1 example_probe [] [] example_blocks) =
     [Reachable, Unreachable, Local, Local, DuplicateId, NoSrc] \<and>
   kept (dedup ascii_lower example_probe example_href example_blocks) = [block_a, block_c] \<and>
   map rm_reason (removed (dedup ascii_lower example_probe example_href example_blocks)) =
     [Unreachable, DuplicateSrc, DuplicateId, NoSrc] \<and>
   subseq [block_a, block_c] example_blocks"
proof -
  have h: "block_id block_a \<notin> set [] \<and> src_truthy (block_src block_a) \<and>
      bsrc block_a \<notin> set []"
    by code_simp
  have e: "map r_reason (pass1 example_probe [] [] example_blocks) =
      [Reachable, Unreachable, Local, Local, DuplicateId, NoSrc]"
    "kept (dedup ascii_lower example_probe example_href example_blocks) = [block_a, block_c]"
    "map rm_reason (removed (dedup ascii_lower example_probe example_href example_blocks)) =
      [Unreachable, DuplicateSrc, DuplicateId, NoSrc]"
    by code_simp+
  note t = dedup_two_passes [of block_a "[]" example_probe "[]" "[block_b]" _ _ _
      example_blocks ascii_lower example_href]
  from t h have p: "pass1 example_probe [] [] (block_a # [block_b]) =
      \<lparr>r_id = block_id block_a, r_src = block_src block_a,
        r_ok = (\<not> is_http (bsrc block_a) \<or> example_probe (bsrc block_a)),
        r_reason = (if \<not> is_http (bsrc block_a) then Local
                    else if example_probe (bsrc block_a) then Reachable else Unreachable),
        r_block = block_a\<rparr>
      # pass1 example_probe (set_add (block_id block_a) []) (set_add (bsrc block_a) []) [block_b]"
    by blast
  from t have "subseq (kept (dedup ascii_lower example_probe example_href example_blocks)) example_blocks"
    by blast
  then have s: "subseq [block_a, block_c] example_blocks" by (simp only: e)
  show ?thesis using h p e s by blast
qed

section \<open>Properties of the reconciliation\<close>

lemma truthy_zero_json: "js_truthy zero_json"
  by (simp add: zero_json_def)

lemma normalize_zero_json: "normalize_entry zero_json = zero_json"
  by (simp add: zero_json_def normalize_entry_def finite_or_zero_def array_or_empty_def)

lemma truthy_normalize: "js_truthy (normalize_entry e) = js_truthy e"
  by (cases e) (simp_all add: normalize_entry_def Let_def)

lemma finite_or_zero_num: "is_num x \<Longrightarrow> finite_or_zero x = the x"
  by (cases x) (auto simp: is_num_def finite_or_zero_def split: json.splits)

lemma array_or_empty_arr: "is_arr x \<Longrightarrow> array_or_empty x = the x"
  by (cases x) (auto simp: is_arr_def array_or_empty_def split: json.splits)

lemma is_num_finite_or_zero: "is_num (Some (finite_or_zero x))"
  by (cases x) (auto simp: is_num_def finite_or_zero_def split: json.splits)

lemma is_arr_array_or_empty: "is_arr (Some (array_or_empty x))"
  by (cases x) (auto simp: is_arr_def array_or_empty_def split: json.splits)

lemma is_num_Some: "is_num x \<Longrightarrow> x = Some (the x)"
  by (cases x) (auto simp: is_num_def)

lemma is_arr_Some: "is_arr x \<Longrightarrow> x = Some (the x)"
  by (cases x) (auto simp: is_arr_def)

lemma update_same: "map_of al k = Some (the (map_of al k)) \<Longrightarrow> AList.update k (the (map_of al k)) al = al"
  by (rule update_triv)

lemma normalize_shaped:
  assumes "entry_shaped e"
  shows "normalize_entry e = e"
proof (cases e)
  case (JObj ob)
  with assms have v: "is_num (map_of ob ''views'')" and h: "is_num (map_of ob ''hearts'')"
    and u: "is_arr (map_of ob ''usersHearted'')"
    by (simp_all add: entry_shaped_def)
  have 1: "AList.update ''views'' (finite_or_zero (map_of ob ''views'')) ob = ob"
    using update_same [OF is_num_Some [OF v]] by (simp add: finite_or_zero_num [OF v])
  have 2: "AList.update ''hearts'' (finite_or_zero (map_of ob ''hearts'')) ob = ob"
    using update_same [OF is_num_Some [OF h]] by (simp add: finite_or_zero_num [OF h])
  have 3: "AList.update ''usersHearted'' (array_or_empty (map_of ob ''usersHearted'')) ob = ob"
    using update_same [OF is_arr_Some [OF u]] by (simp add: array_or_empty_arr [OF u])
  show ?thesis
    by (simp add: JObj normalize_entry_def Let_def 1 2 3)
qed (use assms in \<open>simp_all add: entry_shaped_def\<close>)

lemma shaped_normalize: "entry_shaped (normalize_entry (JObj ob))"
  by (simp add: normalize_entry_def Let_def entry_shaped_def update_conv'
      is_num_finite_or_zero is_arr_array_or_empty)

lemma normalize_idem: "normalize_entry (normalize_entry e) = normalize_entry e"
proof (cases e)
  case (JObj ob)
  then show ?thesis using normalize_shaped [OF shaped_normalize [of ob]] by simp
qed (simp_all add: normalize_entry_def)

lemma hidden_update: "hidden (AList.update k x ob) i = (i \<noteq> k \<and> hidden ob i)"
  by (simp add: hidden_def update_conv')

lemma has_entry_update:
  "has_entry (AList.update k x ob) i = (if i = k then js_truthy x else has_entry ob i)"
  by (simp add: has_entry_def update_conv')

lemma filled_update:
  "filled (AList.update k x ob) i = (if i = k then (if js_truthy x then normalize_entry x else zero_json) else filled ob i)"
  by (simp add: filled_def update_conv')

lemma unpolluted_update: "unpolluted ids ob \<Longrightarrow> unpolluted ids (AList.update k x ob)"
  by (simp add: unpolluted_def update_conv')

lemma unpolluted_Cons: "unpolluted (k # ids) ob \<Longrightarrow> unpolluted ids ob"
  by (simp add: unpolluted_def)

text \<open>
  The three cases of one round of the first loop, in a run that leaves
  \<open>Object.prototype\<close> alone.
\<close>

declare add_missing.simps(2) [simp del]

lemma add_missing_step:
  assumes "unpolluted (k # ids) ob"
  shows "add_missing (k # ids) ob a False =
     (if hidden ob k then add_missing ids ob a False
      else if has_entry ob k
      then add_missing ids (AList.update k (normalize_entry (the (map_of ob k))) ob) a False
      else add_missing ids (AList.update k zero_json ob) (a + 1) False)"
proof (cases "map_of ob k")
  case None
  then have "k \<noteq> ''__proto__''" using assms by (auto simp: unpolluted_def)
  then show ?thesis using None by (simp add: add_missing.simps(2) hidden_def has_entry_def)
next
  case (Some e)
  then show ?thesis by (simp add: add_missing.simps(2) hidden_def has_entry_def)
qed

lemma hidden_has_entry: "hidden ob k \<Longrightarrow> has_entry ob k"
  by (simp add: hidden_def has_entry_def)

lemma has_entry_truthy: "has_entry ob k \<Longrightarrow> \<not> hidden ob k \<Longrightarrow> js_truthy (the (map_of ob k))"
  by (auto simp: hidden_def has_entry_def split: option.splits)

lemma filled_has_entry:
  "has_entry ob k \<Longrightarrow> \<not> hidden ob k \<Longrightarrow> filled ob k = normalize_entry (the (map_of ob k))"
  by (auto simp: hidden_def has_entry_def filled_def split: option.splits)

lemma filled_no_entry: "\<not> has_entry ob k \<Longrightarrow> filled ob k = zero_json"
  by (auto simp: has_entry_def filled_def split: option.splits)

lemma add_missing_map:
  "unpolluted ids ob \<Longrightarrow>
   map_of (fst (add_missing ids ob a False)) i =
     (if i \<in> set ids \<and> \<not> hidden ob i then Some (filled ob i) else map_of ob i)"
proof (induction ids arbitrary: ob a)
  case Nil
  show ?case by simp
next
  case (Cons k ids)
  note step = add_missing_step [OF Cons.prems]
  note u = unpolluted_Cons [OF Cons.prems]
  show ?case
  proof (cases "hidden ob k")
    case True
    then show ?thesis
      using Cons.IH [OF u, of a] by (auto simp: step)
  next
    case nh: False
    show ?thesis
    proof (cases "has_entry ob k")
      case True
      show ?thesis
        using Cons.IH [OF unpolluted_update [OF u], of k "normalize_entry (the (map_of ob k))" a]
          True nh has_entry_truthy [OF True nh] filled_has_entry [OF True nh]
        by (simp add: step hidden_update filled_update update_conv' truthy_normalize
            normalize_idem)
    next
      case False
      show ?thesis
        using Cons.IH [OF unpolluted_update [OF u], of k zero_json "a + 1"]
          False nh filled_no_entry [OF False]
        by (simp add: step hidden_update filled_update update_conv' truthy_zero_json
            normalize_zero_json)
    qed
  qed
qed

lemma add_missing_keys:
  "fst ` set ob \<subseteq> fst ` set (fst (add_missing ids ob a p)) \<and>
   fst ` set (fst (add_missing ids ob a p)) \<subseteq> fst ` set ob \<union> set ids"
proof (induction ids arbitrary: ob a p)
  case Nil
  show ?case by simp
next
  case (Cons k ids)
  have 1: "fst ` set (AList.update k x ob) = insert k (fst ` set ob)" for x
    by (simp add: dom_update)
  show ?case
  proof (cases "has_entry ob k \<or> (p \<and> map_of ob k = None \<and> k = ''usersHearted'')")
    case False
    then show ?thesis
      using Cons.IH [of "AList.update k zero_json ob" "a + 1" p]
      by (auto simp: add_missing.simps(2) 1)
  next
    case True
    show ?thesis
    proof (cases "map_of ob k")
      case None
      then show ?thesis
        using True Cons.IH [of ob a "p \<or> k = ''__proto__''"]
        by (auto simp: add_missing.simps(2))
    next
      case (Some e)
      then show ?thesis
        using True Cons.IH [of "AList.update k (normalize_entry e) ob" a p]
        by (auto simp: add_missing.simps(2) 1)
    qed
  qed
qed

lemma add_missing_distinct:
  "distinct (map fst ob) \<Longrightarrow> distinct (map fst (fst (add_missing ids ob a p)))"
  by (induction ids arbitrary: ob a p)
    (auto simp: add_missing.simps(2) distinct_update split: option.splits)

lemma add_missing_count:
  "unpolluted ids ob \<Longrightarrow>
   snd (add_missing ids ob a False) = a + card {i \<in> set ids. \<not> has_entry ob i}"
proof (induction ids arbitrary: ob a)
  case Nil
  show ?case by simp
next
  case (Cons k ids)
  note step = add_missing_step [OF Cons.prems]
  note u = unpolluted_Cons [OF Cons.prems]
  show ?case
  proof (cases "hidden ob k")
    case True
    then have "{i \<in> set (k # ids). \<not> has_entry ob i} = {i \<in> set ids. \<not> has_entry ob i}"
      using hidden_has_entry [OF True] by auto
    then show ?thesis using True Cons.IH [OF u, of a] by (simp add: step)
  next
    case nh: False
    show ?thesis
    proof (cases "has_entry ob k")
      case True
      have "has_entry (AList.update k (normalize_entry (the (map_of ob k))) ob) i =
          has_entry ob i" for i
        using True has_entry_truthy [OF True nh] by (simp add: has_entry_update truthy_normalize)
      then have "{i \<in> set ids. \<not> has_entry (AList.update k (normalize_entry (the (map_of ob k))) ob) i}
          = {i \<in> set (k # ids). \<not> has_entry ob i}"
        using True by auto
      then show ?thesis
        using True nh
          Cons.IH [OF unpolluted_update [OF u], of k "normalize_entry (the (map_of ob k))" a]
        by (simp add: step)
    next
      case False
      have "{i \<in> set (k # ids). \<not> has_entry ob i} =
          insert k {i \<in> set ids. \<not> has_entry (AList.update k zero_json ob) i}"
        using False by (auto simp: has_entry_update truthy_zero_json)
      moreover have "k \<notin> {i \<in> set ids. \<not> has_entry (AList.update k zero_json ob) i}"
        by (simp add: has_entry_update truthy_zero_json)
      ultimately have "card {i \<in> set (k # ids). \<not> has_entry ob i} =
          Suc (card {i \<in> set ids. \<not> has_entry (AList.update k zero_json ob) i})"
        by simp
      then show ?thesis
        using False nh Cons.IH [OF unpolluted_update [OF u], of k zero_json "a + 1"]
        by (simp add: step)
    qed
  qed
qed

lemma remove_extra_map:
  "map_of (fst (remove_extra ks ids ob r)) i =
     (if i \<in> set ks \<and> i \<notin> set ids then None else map_of ob i)"
  by (induction ks arbitrary: ob r) (auto simp: delete_conv')

lemma remove_extra_count:
  "snd (remove_extra ks ids ob r) = r + length (filter (\<lambda>k. k \<notin> set ids) ks)"
  by (induction ks arbitrary: ob r) auto

lemma map_of_None_keys: "(map_of ob i = None) = (i \<notin> fst ` set ob)"
  by (simp add: map_of_eq_None_iff)

lemma reconcile_map:
  assumes "unpolluted ids ob"
  shows "map_of (fst (reconcile ids ob)) i =
     (if i \<in> set ids \<and> \<not> hidden ob i then Some (filled ob i) else None)"
proof -
  obtain v1 a where 1: "add_missing ids ob 0 False = (v1, a)"
    by (cases "add_missing ids ob 0 False")
  obtain v2 r where 2: "remove_extra (map fst v1) ids v1 0 = (v2, r)"
    by (cases "remove_extra (map fst v1) ids v1 0")
  have m1: "map_of v1 i = (if i \<in> set ids \<and> \<not> hidden ob i then Some (filled ob i) else map_of ob i)"
    using add_missing_map [OF assms, of 0 i] by (simp add: 1)
  have m2: "map_of v2 i = (if i \<in> set (map fst v1) \<and> i \<notin> set ids then None else map_of v1 i)"
    using remove_extra_map [of "map fst v1" ids v1 0 i] by (simp add: 2)
  have "i \<notin> set ids \<Longrightarrow> i \<notin> fst ` set v1 \<Longrightarrow> map_of v1 i = None"
    by (simp add: map_of_None_keys)
  moreover have "hidden ob i \<Longrightarrow> map_of ob i = None" by (simp add: hidden_def)
  ultimately show ?thesis
    using m1 m2 by (auto simp: reconcile_def 1 2)
qed

lemma reconcile_summary:
  assumes "distinct (map fst ob)" and "unpolluted ids ob"
  shows "s_added (snd (reconcile ids ob)) = card {i \<in> set ids. \<not> has_entry ob i}"
    and "s_removed (snd (reconcile ids ob)) = card {k \<in> fst ` set ob. k \<notin> set ids}"
    and "s_scanned (snd (reconcile ids ob)) = length ids"
proof -
  obtain v1 a where 1: "add_missing ids ob 0 False = (v1, a)"
    by (cases "add_missing ids ob 0 False")
  obtain v2 r where 2: "remove_extra (map fst v1) ids v1 0 = (v2, r)"
    by (cases "remove_extra (map fst v1) ids v1 0")
  have a: "a = card {i \<in> set ids. \<not> has_entry ob i}"
    using add_missing_count [OF assms(2), of 0] by (simp add: 1)
  have d: "distinct (map fst v1)"
    using add_missing_distinct [OF assms(1), of ids 0 False] by (simp add: 1)
  have k: "fst ` set ob \<subseteq> fst ` set v1 \<and> fst ` set v1 \<subseteq> fst ` set ob \<union> set ids"
    using add_missing_keys [of ob ids 0 False] by (simp add: 1)
  have "r = length (filter (\<lambda>k. k \<notin> set ids) (map fst v1))"
    using remove_extra_count [of "map fst v1" ids v1 0] by (simp add: 2)
  also have "\<dots> = card ({k. k \<notin> set ids} \<inter> set (map fst v1))"
    using d by (rule distinct_length_filter)
  also have "{k. k \<notin> set ids} \<inter> set (map fst v1) = {k \<in> fst ` set ob. k \<notin> set ids}"
    using k by auto
  finally have r: "r = card {k \<in> fst ` set ob. k \<notin> set ids}" .
  show "s_added (snd (reconcile ids ob)) = card {i \<in> set ids. \<not> has_entry ob i}"
    by (simp add: reconcile_def 1 2 a)
  show "s_removed (snd (reconcile ids ob)) = card {k \<in> fst ` set ob. k \<notin> set ids}"
    by (simp add: reconcile_def 1 2 r)
  show "s_scanned (snd (reconcile ids ob)) = length ids"
    by (simp add: reconcile_def 1 2)
qed

lemma update_views_map_aux:
  "map_of (foldl (\<lambda>newViews i.
              case map_of vd i of
                None \<Rightarrow> newViews
              | Some e \<Rightarrow> if js_truthy e \<and> i \<noteq> ''__proto__''
                          then AList.update i e newViews else newViews) nv ids) i =
     (if i \<in> set ids \<and> copied vd i then map_of vd i else map_of nv i)"
proof (induction ids arbitrary: nv)
  case Nil
  show ?case by simp
next
  case (Cons k ids)
  show ?case
    by (simp add: Cons.IH update_conv' split: option.splits)
      (auto simp: copied_def split: option.splits)
qed

lemma update_views_map:
  "map_of (update_views ids vd) i = (if i \<in> set ids \<and> copied vd i then map_of vd i else None)"
  by (simp add: update_views_def update_views_map_aux)

lemma foldl_pass2_ids:
  "set (seenFinalIds (foldl (pass2_step norm) st rs)) = set (seenFinalIds st) \<union> r_id ` set rs"
proof (induction rs arbitrary: st)
  case Nil
  show ?case by simp
next
  case (Cons r rs)
  have "set (seenFinalIds (pass2_step norm st r)) = insert (r_id r) (set (seenFinalIds st))"
    by (auto simp: pass2_step_def Let_def set_add_def)
  then show ?case using Cons.IH [of "pass2_step norm st r"] by simp
qed

lemma pass1_ids: "map r_id (pass1 probe S T bs) = map block_id bs"
  by (induction bs arbitrary: S T) (auto simp: Let_def)

lemma dedup_seen_ids: "set (seenFinalIds (dedup lower probe h bs)) = block_id ` set bs"
proof -
  have "r_id ` set (pass1 probe [] [] bs) = block_id ` set bs"
    using pass1_ids [of probe "[]" "[]" bs] by (metis list.set_map)
  then show ?thesis by (simp add: dedup_def pass2_def foldl_pass2_ids)
qed

text \<open>
  Claim C1, as stated, fails on the update of \<open>views.json\<close> in \<open>fix-images.js\<close>: the
  ledger is the empty object, the block with id \<open>a\<close> is kept, and the ledger written is the
  empty object again, with no zero entry for \<open>a\<close>.
\<close>

theorem fix_images_adds_no_entry_counterexample:
  "fix_images ascii_lower never_reachable no_url (Some gallery_page) (Some []) =
     Written
       (''<section class='gallery'>'' @ [CHR 0x0A]
        @ ''<div class='image-container' data-id='a'><img src='a.png'></div>'' @ [CHR 0x0A]
        @ ''</section>'')
       (Some [])
       \<lparr>kept = [''<div class='image-container' data-id='a'><img src='a.png'></div>''],
        removed = [], seenFinalIds = [''a''], seenFinalSrcs = [''a.png'']\<rparr>"
  by code_simp

text \<open>
  Claim C1, amended. The reconciler script resynchronizes the ledger to the ids \<open>K\<close> it
  scans: an id of \<open>K\<close> for which \<open>views[id]\<close> is false gets the zero entry, an entry whose
  id is not in \<open>K\<close> is deleted, an entry of an id of \<open>K\<close> that has the shape the server
  writes (two finite numbers and an array) is left as it is, and the summary counts the
  ids added and the ids removed. This holds for a scan that leaves \<open>Object.prototype\<close>
  alone: one that does not meet the id \<open>__proto__\<close>, or a ledger that has an entry of
  that name. \<open>views[id]\<close> is false for an id that has no entry, unless it is a name that
  every object inherits, and for an id whose entry is a falsy value.
  The update of \<open>views.json\<close> in \<open>fix-images.js\<close> adds no entry and reports no counts:
  each entry it writes is an entry of the old ledger, unchanged; the truthy entry of the
  id of a kept block stays, unless the id is \<open>__proto__\<close>; and an entry whose id is the id
  of no block of the gallery is deleted.
\<close>

theorem reconciliation_resync:
  assumes "distinct (map fst ledger)"
    and "''__proto__'' \<in> set K \<longrightarrow> map_of ledger ''__proto__'' \<noteq> None"
  shows "(i \<in> set K \<and> \<not> has_entry ledger i \<longrightarrow>
            map_of (fst (reconcile K ledger)) i = Some zero_json) \<and>
         (i \<notin> set K \<longrightarrow> map_of (fst (reconcile K ledger)) i = None) \<and>
         (i \<in> set K \<and> map_of ledger i = Some e \<and> entry_shaped e \<longrightarrow>
            map_of (fst (reconcile K ledger)) i = Some e) \<and>
         s_added (snd (reconcile K ledger)) = card {k \<in> set K. \<not> has_entry ledger k} \<and>
         s_removed (snd (reconcile K ledger)) = card {k \<in> fst ` set ledger. k \<notin> set K} \<and>
         (map_of (update_views (seenFinalIds (dedup lower probe h blocks)) ledger) i = Some e \<longrightarrow>
            map_of ledger i = Some e) \<and>
         (i \<in> block_id ` set (kept (dedup lower probe h blocks)) \<and>
          map_of ledger i = Some e \<and> js_truthy e \<and> i \<noteq> ''__proto__'' \<longrightarrow>
            map_of (update_views (seenFinalIds (dedup lower probe h blocks)) ledger) i =
              Some e) \<and>
         (i \<notin> block_id ` set blocks \<longrightarrow>
            map_of (update_views (seenFinalIds (dedup lower probe h blocks)) ledger) i = None)"
proof -
  have u: "unpolluted K ledger" using assms(2) by (simp add: unpolluted_def)
  have 1: "map_of (fst (reconcile K ledger)) i = Some zero_json"
    if "i \<in> set K" "\<not> has_entry ledger i"
  proof -
    have "\<not> hidden ledger i" using that(2) hidden_has_entry by blast
    then show ?thesis using that by (simp add: reconcile_map [OF u] filled_no_entry)
  qed
  have 2: "map_of (fst (reconcile K ledger)) i = None" if "i \<notin> set K"
    using that by (simp add: reconcile_map [OF u])
  have 3: "map_of (fst (reconcile K ledger)) i = Some e"
    if "i \<in> set K" "map_of ledger i = Some e" "entry_shaped e"
  proof -
    have "js_truthy e" using that(3) by (cases e) (simp_all add: entry_shaped_def)
    then have "filled ledger i = normalize_entry e" using that(2) by (simp add: filled_def)
    moreover have "\<not> hidden ledger i" using that(2) by (simp add: hidden_def)
    ultimately show ?thesis
      using that by (simp add: reconcile_map [OF u] normalize_shaped)
  qed
  have 6: "map_of ledger i = Some e"
    if "map_of (update_views (seenFinalIds (dedup lower probe h blocks)) ledger) i = Some e"
    using that by (simp add: update_views_map split: if_splits)
  have "set (kept (dedup lower probe h blocks)) \<subseteq> set blocks"
  proof -
    have "subseq (map r_block (keeps (normalizeSrc lower h) [] [] (pass1 probe [] [] blocks)))
        (map r_block (pass1 probe [] [] blocks))"
      using keeps_subseq [of "normalizeSrc lower h" "[]" "[]" "pass1 probe [] [] blocks"]
      by (meson subseq_filter_left subseq_map subseq_order.order_trans)
    then have "subseq (kept (dedup lower probe h blocks)) blocks"
      by (simp add: dedup_kept pass1_blocks)
    then show ?thesis by (rule subseq_set_mono_aux)
  qed
  then have 7: "map_of (update_views (seenFinalIds (dedup lower probe h blocks)) ledger) i =
      Some e"
    if "i \<in> block_id ` set (kept (dedup lower probe h blocks))" "map_of ledger i = Some e"
      "js_truthy e" "i \<noteq> ''__proto__''"
    using that by (auto simp: update_views_map dedup_seen_ids copied_def)
  have 8: "map_of (update_views (seenFinalIds (dedup lower probe h blocks)) ledger) i = None"
    if "i \<notin> block_id ` set blocks"
    using that by (simp add: update_views_map dedup_seen_ids)
  show ?thesis
    using 1 2 3 6 7 8 reconcile_summary(1,2) [OF assms(1) u] by blast
qed

theorem reconciliation_resync_witness:
  "distinct (map fst ledger_abc) \<and>
   ''__proto__'' \<notin> set [''a'', ''b'', ''d''] \<and>
   ''c'' \<notin> set [''a'', ''b'', ''d''] \<and>
   map_of (fst (reconcile [''a'', ''b'', ''d''] ledger_abc)) ''c'' = None \<and>
   ''a'' \<in> set [''a'', ''b'', ''d''] \<and> map_of ledger_abc ''a'' = Some (example_entry 3 1) \<and>
   entry_shaped (example_entry 3 1) \<and>
   map_of (fst (reconcile [''a'', ''b'', ''d''] ledger_abc)) ''a'' = Some (example_entry 3 1) \<and>
   ''d'' \<in> set [''a'', ''b'', ''d''] \<and> \<not> has_entry ledger_abc ''d'' \<and>
   map_of (fst (reconcile [''a'', ''b'', ''d''] ledger_abc)) ''d'' = Some zero_json \<and>
   reconcile [''a'', ''b'', ''d''] ledger_abc =
     ([(''a'', example_entry 3 1), (''b'', example_entry 5 0), (''d'', zero_json)],
      \<lparr>s_scanned = 3, s_added = 1, s_removed = 1\<rparr>) \<and>
   reconcile [''a'', ''b''] ledger_abc =
     ([(''a'', example_entry 3 1), (''b'', example_entry 5 0)],
      \<lparr>s_scanned = 2, s_added = 0, s_removed = 1\<rparr>) \<and>
   reconciler_script ''<div data-id='a'></div><div data-id='b'></div>'' ledger_abc =
     ([(''a'', example_entry 3 1), (''b'', example_entry 5 0)],
      \<lparr>s_scanned = 2, s_added = 0, s_removed = 1\<rparr>) \<and>
   ''c'' \<in> block_id ` set (kept (dedup ascii_lower example_probe example_href [block_c])) \<and>
   map_of ledger_abc ''c'' = Some (example_entry 7 2) \<and> js_truthy (example_entry 7 2) \<and>
   ''c'' \<noteq> ''__proto__'' \<and>
   map_of (update_views (seenFinalIds (dedup ascii_lower example_probe example_href [block_c]))
     ledger_abc) ''c'' = Some (example_entry 7 2) \<and>
   ''a'' \<notin> block_id ` set [block_c] \<and>
   map_of (update_views (seenFinalIds (dedup ascii_lower example_probe example_href [block_c]))
     ledger_abc) ''a'' = None"
proof -
  have d: "distinct (map fst ledger_abc)" by code_simp
  have np: "''__proto__'' \<notin> set [''a'', ''b'', ''d'']" by simp
  then have p: "''__proto__'' \<in> set [''a'', ''b'', ''d''] \<longrightarrow>
      map_of ledger_abc ''__proto__'' \<noteq> None"
    by simp
  have h1: "''c'' \<notin> set [''a'', ''b'', ''d'']" by simp
  have h2: "''a'' \<in> set [''a'', ''b'', ''d'']" by simp
  have h3: "map_of ledger_abc ''a'' = Some (example_entry 3 1)" by code_simp
  have h4: "entry_shaped (example_entry 3 1)" by code_simp
  have h5: "''d'' \<in> set [''a'', ''b'', ''d'']" by simp
  have h6: "\<not> has_entry ledger_abc ''d''" by code_simp
  have e0: "reconcile [''a'', ''b'', ''d''] ledger_abc =
     ([(''a'', example_entry 3 1), (''b'', example_entry 5 0), (''d'', zero_json)],
      \<lparr>s_scanned = 3, s_added = 1, s_removed = 1\<rparr>)"
    by code_simp
  have e1: "reconcile [''a'', ''b''] ledger_abc =
     ([(''a'', example_entry 3 1), (''b'', example_entry 5 0)],
      \<lparr>s_scanned = 2, s_added = 0, s_removed = 1\<rparr>)"
    by code_simp
  have e3: "reconciler_script ''<div data-id='a'></div><div data-id='b'></div>'' ledger_abc =
     ([(''a'', example_entry 3 1), (''b'', example_entry 5 0)],
      \<lparr>s_scanned = 2, s_added = 0, s_removed = 1\<rparr>)"
    by code_simp
  have k1: "kept (dedup ascii_lower example_probe example_href [block_c]) = [block_c]"
    by code_simp
  have k2: "block_id block_c = ''c''" by code_simp
  have k3: "js_truthy (example_entry 7 2)" by code_simp
  have k4: "map_of ledger_abc ''c'' = Some (example_entry 7 2)" by code_simp
  have k5: "''c'' \<noteq> ''__proto__''" by simp
  have m1: "''c'' \<in> block_id ` set (kept (dedup ascii_lower example_probe example_href [block_c]))"
    by (simp add: k1 k2)
  have m2: "''a'' \<notin> block_id ` set [block_c]"
    by (simp add: k2)
  note tc = reconciliation_resync [OF d p, of "''c''" "example_entry 7 2"
      ascii_lower example_probe example_href "[block_c]"]
  note ta = reconciliation_resync [OF d p, of "''a''" "example_entry 3 1"
      ascii_lower example_probe example_href "[block_c]"]
  note td = reconciliation_resync [OF d p, of "''d''" "example_entry 3 1"
      ascii_lower example_probe example_href "[block_c]"]
  have c: "map_of (fst (reconcile [''a'', ''b'', ''d''] ledger_abc)) ''c'' = None"
    using tc [THEN conjunct2, THEN conjunct1] h1 by (rule mp)
  have a: "map_of (fst (reconcile [''a'', ''b'', ''d''] ledger_abc)) ''a'' =
      Some (example_entry 3 1)"
    using ta [THEN conjunct2, THEN conjunct2, THEN conjunct1] h2 h3 h4 by blast
  have z: "map_of (fst (reconcile [''a'', ''b'', ''d''] ledger_abc)) ''d'' = Some zero_json"
    using td [THEN conjunct1] h5 h6 by blast
  have f: "map_of (update_views (seenFinalIds (dedup ascii_lower example_probe example_href
      [block_c])) ledger_abc) ''c'' = Some (example_entry 7 2)"
    using tc [THEN conjunct2, THEN conjunct2, THEN conjunct2, THEN conjunct2, THEN conjunct2,
        THEN conjunct2, THEN conjunct1] m1 k3 k4 k5
    by blast
  have g: "map_of (update_views (seenFinalIds (dedup ascii_lower example_probe example_href
      [block_c])) ledger_abc) ''a'' = None"
    using ta [THEN conjunct2, THEN conjunct2, THEN conjunct2, THEN conjunct2, THEN conjunct2,
        THEN conjunct2, THEN conjunct2] m2
    by (rule mp)
  show ?thesis
    by (intro conjI d np h1 h2 h3 h4 h5 h6 e0 e1 e3 c a z k3 k4 k5 m1 m2 f g)
qed

text \<open>
  The update iterates \<open>seenFinalIds\<close>, which holds the id of every block of the gallery,
  kept or not. The entry of a block that the run drops therefore stays in the ledger,
  where the comments on the update read \<open>only keep entries for kept ids\<close>.
\<close>

lemma fix_images_keeps_entry_of_dropped_block:
  "fix_images ascii_lower never_reachable no_url (Some gallery_page_b)
     (Some [(''b'', example_entry 5 0)]) =
     Written
       (''<section class='gallery'>'' @ [CHR 0x0A] @ [CHR 0x0A] @ ''</section>'')
       (Some [(''b'', example_entry 5 0)])
       \<lparr>kept = [], removed = [\<lparr>rm_id = ''b'', rm_src = [], rm_reason = NoSrc\<rparr>],
        seenFinalIds = [''b''], seenFinalSrcs = []\<rparr>"
  by code_simp

text \<open>
  Names that the ledger inherits. The test \<open>if (!views[id])\<close> of the reconciler script is
  false for the scanned id \<open>constructor\<close>, which gets no entry and is not counted; a
  count that is no finite number is reset to 0; and after the scanned id \<open>__proto__\<close>
  the id \<open>usersHearted\<close> gets no entry either.
\<close>

lemma reconcile_inherited_id:
  "reconcile [''constructor'', ''a''] [] =
     ([(''a'', zero_json)], \<lparr>s_scanned = 2, s_added = 1, s_removed = 0\<rparr>)"
  by code_simp

lemma reconcile_infinite_count:
  "reconcile [''a'']
     [(''a'', JObj [(''views'', JInfinity), (''hearts'', JNum 2), (''usersHearted'', JArr [])])] =
     ([(''a'', example_entry 0 2)], \<lparr>s_scanned = 1, s_added = 0, s_removed = 0\<rparr>)"
  by code_simp

lemma reconcile_after_prototype:
  "reconcile [''__proto__'', ''usersHearted'', ''views''] [] =
     ([(''views'', zero_json)], \<lparr>s_scanned = 3, s_added = 1, s_removed = 0\<rparr>) \<and>
   reconcile [''usersHearted'', ''__proto__''] [] =
     ([(''usersHearted'', zero_json)], \<lparr>s_scanned = 2, s_added = 1, s_removed = 0\<rparr>)"
  by code_simp

section \<open>Properties of the catalog extractor\<close>

declare block_spans.simps [simp del]
declare close_index.simps [simp del]

lemma find_SomeD: "List.find P xs = Some x \<Longrightarrow> P x \<and> x \<in> set xs"
  by (induction xs) (auto split: if_splits)

lemma starts_ci_length: "starts_ci p s \<Longrightarrow> length p \<le> length s"
proof -
  assume "starts_ci p s"
  then have "length (ascii_lower (take (length p) s)) = length (ascii_lower p)"
    by (simp add: starts_ci_def)
  then show ?thesis by (simp add: ascii_lower_def)
qed

lemma next_div_le: "next_div html pos = Some (e, b) \<Longrightarrow> e \<le> length html"
proof -
  assume a: "next_div html pos = Some (e, b)"
  then obtain i where f: "List.find (\<lambda>i. open_div_at (drop i html) \<or> close_div_at (drop i html))
      [pos..<length html] = Some i"
    by (auto simp: next_div_def split: option.splits)
  have e: "e = (if open_div_at (drop i html) then i + 4 else i + 6)"
    using a f by (auto simp: next_div_def split: if_splits)
  have m: "open_div_at (drop i html) \<or> close_div_at (drop i html)"
    using find_SomeD [OF f] by simp
  show ?thesis
  proof (cases "open_div_at (drop i html)")
    case True
    then have "starts_ci ''<div'' (drop i html)" by (simp add: open_div_at_def)
    from starts_ci_length [OF this] show ?thesis using e True by simp
  next
    case False
    with m have "starts_ci ''</div>'' (drop i html)" by (simp add: close_div_at_def)
    from starts_ci_length [OF this] show ?thesis using e False by simp
  qed
qed

lemma close_index_le: "close_index html pos depth = Some e \<Longrightarrow> e \<le> length html"
proof (induction html pos depth rule: close_index.induct)
  case (1 html pos depth)
  from "1.prems" obtain e1 b where n: "next_div html pos = Some (e1, b)"
    by (auto simp: close_index.simps [of html pos depth] split: option.splits)
  show ?case
  proof (cases "(if b then depth + 1 else depth - 1) = 0")
    case True
    with "1.prems" n have "e = e1"
      by (simp add: close_index.simps [of html pos depth] Let_def)
    then show ?thesis using next_div_le [OF n] by simp
  next
    case False
    with "1.prems" n have "close_index html e1 (if b then depth + 1 else depth - 1) = Some e"
      by (simp add: close_index.simps [of html pos depth] Let_def)
    from "1.IH" [OF n refl _ False this] show ?thesis by simp
  qed
qed

lemma block_spans_ordered:
  "sorted_wrt (\<lambda>a b. snd a \<le> fst b) (block_spans html idx) \<and>
   (\<forall>p \<in> set (block_spans html idx). idx \<le> fst p \<and> fst p < snd p \<and> snd p \<le> length html)"
proof (induction html idx rule: block_spans.induct)
  case (1 html idx)
  show ?case
  proof (cases "indexOf ''<div'' html idx")
    case None
    then show ?thesis by (simp add: block_spans.simps [of html idx])
  next
    case (Some openIdx)
    note o = Some
    show ?thesis
    proof (cases "indexOf ''>'' html openIdx")
      case None
      then show ?thesis using o by (simp add: block_spans.simps [of html idx])
    next
      case (Some tagEnd)
      note t = Some
      have le: "idx \<le> openIdx" "openIdx \<le> tagEnd"
        using indexOf_ge [OF o] indexOf_ge [OF t] by simp_all
      show ?thesis
      proof (cases "\<not> has_class (slice html openIdx (tagEnd + 1)) \<or>
                  \<not> has_data_id (slice html openIdx (tagEnd + 1))")
        case True
        have "block_spans html idx = block_spans html (tagEnd + 1)"
          using o t True by (simp add: block_spans.simps [of html idx])
        then show ?thesis
          using "1.IH"(1) [OF o t True] le by fastforce
      next
        case False
        show ?thesis
        proof (cases "close_index html (tagEnd + 1) 1")
          case None
          then show ?thesis using o t False by (simp add: block_spans.simps [of html idx])
        next
          case (Some closeIdx)
          have eq: "block_spans html idx = (openIdx, closeIdx) # block_spans html closeIdx"
            using o t False Some by (simp add: block_spans.simps [of html idx])
          have gt: "tagEnd + 1 < closeIdx" using close_index_gt [OF Some] .
          have cl: "closeIdx \<le> length html" using close_index_le [OF Some] .
          show ?thesis
            using "1.IH"(2) [OF o t False Some] le gt cl by (fastforce simp: eq)
        qed
      qed
    qed
  qed
qed

lemma qualifying_openers_Nil:
  assumes "qualifying_openers html = []" and "indexOf ''<div'' html idx = Some openIdx"
    and "indexOf ''>'' html openIdx = Some tagEnd"
  shows "\<not> has_class (slice html openIdx (tagEnd + 1)) \<or>
         \<not> has_data_id (slice html openIdx (tagEnd + 1))"
proof -
  have "openIdx < length html" and "take 4 (drop openIdx html) = ''<div''"
    using find_SomeD [OF assms(2) [unfolded indexOf_def]] by (simp_all add: eval_nat_numeral)
  then show ?thesis
    using assms(1,3) by (auto simp: qualifying_openers_def filter_empty_conv)
qed

lemma block_spans_none:
  "qualifying_openers html = [] \<Longrightarrow> block_spans html idx = []"
proof (induction html idx rule: block_spans.induct)
  case (1 html idx)
  show ?case
  proof (cases "indexOf ''<div'' html idx")
    case None
    then show ?thesis by (simp add: block_spans.simps [of html idx])
  next
    case (Some openIdx)
    note o = Some
    show ?thesis
    proof (cases "indexOf ''>'' html openIdx")
      case None
      then show ?thesis using o by (simp add: block_spans.simps [of html idx])
    next
      case (Some tagEnd)
      have nq: "\<not> has_class (slice html openIdx (tagEnd + 1)) \<or>
                  \<not> has_data_id (slice html openIdx (tagEnd + 1))"
        using qualifying_openers_Nil [OF "1.prems" o Some] .
      have "block_spans html idx = block_spans html (tagEnd + 1)"
        using o Some nq by (simp add: block_spans.simps [of html idx])
      then show ?thesis using "1.IH"(1) [OF o Some nq "1.prems"] by simp
    qed
  qed
qed

text \<open>
  Claim C8, as stated, fails where the gallery region is absent: \<open>main\<close> then reports
  \<open>Gallery section not found\<close> and exits with status 1.
\<close>

theorem extraction_without_gallery_counterexample:
  "extract_catalog ''<p>no gallery</p>'' = Inl GalleryNotFound \<and>
   fix_images ascii_lower never_reachable no_url (Some ''<p>no gallery</p>'') None = Exit GalleryNotFound"
  by code_simp

text \<open>
  Claim C8, amended. When the gallery region is absent the extraction ends in the error
  exit. When it is present the extraction returns the blocks in document order: they are
  the slices of the region at spans that do not overlap and lie one after the other; and
  it returns the empty sequence, not an error, when no opening tag of the region
  qualifies.
\<close>

theorem extraction_order:
  "(gallery_find html = None \<longrightarrow> extract_catalog html = Inl GalleryNotFound) \<and>
   (gallery_find html = Some m \<longrightarrow>
      extract_catalog html =
        Inr (map (\<lambda>(openIdx, closeIdx). slice (galleryContent m) openIdx closeIdx)
               (block_spans (galleryContent m) 0)) \<and>
      sorted_wrt (\<lambda>a b. snd a \<le> fst b) (block_spans (galleryContent m) 0) \<and>
      (\<forall>p \<in> set (block_spans (galleryContent m) 0).
         fst p < snd p \<and> snd p \<le> length (galleryContent m))) \<and>
   (gallery_find html = Some m \<and> qualifying_openers (galleryContent m) = [] \<longrightarrow>
      extract_catalog html = Inr [])"
  using block_spans_ordered [of "galleryContent m" 0] block_spans_none [of "galleryContent m" 0]
  by (simp add: extract_catalog_def extractImageContainers_def)

theorem extraction_order_witness:
  "gallery_find ''<p>no gallery</p>'' = None \<and>
   extract_catalog ''<p>no gallery</p>'' = Inl GalleryNotFound \<and>
   gallery_find gallery_page =
     Some \<lparr>g_index = 0, galleryOpen = ''<section class='gallery'>'',
            galleryContent = ''<div class='image-container' data-id='a'><img src='a.png'></div>'',
            galleryClose = ''</section>''\<rparr> \<and>
   extract_catalog gallery_page =
     Inr [''<div class='image-container' data-id='a'><img src='a.png'></div>''] \<and>
   gallery_find ''<section class='gallery'><div id='z'></div></section>'' =
     Some \<lparr>g_index = 0, galleryOpen = ''<section class='gallery'>'',
            galleryContent = ''<div id='z'></div>'', galleryClose = ''</section>''\<rparr> \<and>
   qualifying_openers ''<div id='z'></div>'' = [] \<and>
   extract_catalog ''<section class='gallery'><div id='z'></div></section>'' = Inr []"
proof -
  have g: "gallery_find ''<p>no gallery</p>'' = None"
    "gallery_find gallery_page =
     Some \<lparr>g_index = 0, galleryOpen = ''<section class='gallery'>'',
            galleryContent = ''<div class='image-container' data-id='a'><img src='a.png'></div>'',
            galleryClose = ''</section>''\<rparr>"
    "gallery_find ''<section class='gallery'><div id='z'></div></section>'' =
     Some \<lparr>g_index = 0, galleryOpen = ''<section class='gallery'>'',
            galleryContent = ''<div id='z'></div>'', galleryClose = ''</section>''\<rparr>"
    "qualifying_openers ''<div id='z'></div>'' = []"
    "extract_catalog gallery_page =
     Inr [''<div class='image-container' data-id='a'><img src='a.png'></div>'']"
    by code_simp+
  from extraction_order [of "''<p>no gallery</p>''"] g(1)
  have a: "extract_catalog ''<p>no gallery</p>'' = Inl GalleryNotFound" by blast
  have q: "qualifying_openers (galleryContent \<lparr>g_index = 0,
      galleryOpen = ''<section class='gallery'>'', galleryContent = ''<div id='z'></div>'',
      galleryClose = ''</section>''\<rparr>) = []"
    using g(4) by simp
  from extraction_order [of "''<section class='gallery'><div id='z'></div></section>''"
      "\<lparr>g_index = 0, galleryOpen = ''<section class='gallery'>'',
        galleryContent = ''<div id='z'></div>'', galleryClose = ''</section>''\<rparr>"] g(3) q
  have b: "extract_catalog ''<section class='gallery'><div id='z'></div></section>'' = Inr []"
    by blast
  show ?thesis using g a b by blast
qed

section \<open>Properties of the reachability probe\<close>

text \<open>
  Claim C7. For every url and timeout the probe settles with a result record: where the
  URL does not parse, the request fails, throws or times out, the result is
  \<open>{ok: false}\<close>; \<open>ok\<close> is true exactly when a response arrives whose status is in
  [200, 300) and whose content type, in lower case, starts with \<open>image\<close>, and the
  result then carries that status and content type.
\<close>

theorem probe_total:
  "ok (checkUrl lower parse_url net u timeout) =
     (\<exists>parsed statusCode header.
        parse_url u = Some parsed \<and>
        net (request_for parsed timeout) = Response statusCode header \<and>
        200 \<le> statusCode \<and> statusCode < 300 \<and>
        take 5 (lower (case header of None \<Rightarrow> [] | Some h \<Rightarrow> h)) = ''image'') \<and>
   (parse_url u = None \<longrightarrow> checkUrl lower parse_url net u timeout = not_ok) \<and>
   (parse_url u = Some parsed \<and>
    net (request_for parsed timeout) \<in> {NetError, Timeout, RequestThrows} \<longrightarrow>
      checkUrl lower parse_url net u timeout = not_ok) \<and>
   (parse_url u = Some parsed \<and> net (request_for parsed timeout) = Response statusCode header \<longrightarrow>
      status (checkUrl lower parse_url net u timeout) = Some statusCode \<and>
      contentType (checkUrl lower parse_url net u timeout) =
        Some (lower (case header of None \<Rightarrow> [] | Some h \<Rightarrow> h))) \<and>
   \<not> ok not_ok"
  by (auto simp: checkUrl_def on_response_def not_ok_def Let_def
      split: option.splits net_event.splits)

theorem probe_total_witness:
  "ok (checkUrl ascii_lower (\<lambda>s. if s = ''http://h/x.png'' then Some example_url else None)
         (\<lambda>r. Response 200 (Some ''Image/PNG'')) ''http://h/x.png'' 8000) \<and>
   checkUrl ascii_lower (\<lambda>s. if s = ''http://h/x.png'' then Some example_url else None)
         (\<lambda>r. Response 200 (Some ''Image/PNG'')) ''not a url'' 8000 = not_ok \<and>
   checkUrl ascii_lower (\<lambda>s. Some example_url) (\<lambda>r. Timeout) ''http://h/x.png'' 8000 = not_ok \<and>
   \<not> ok (checkUrl ascii_lower (\<lambda>s. Some example_url) (\<lambda>r. Response 404 (Some ''image/png''))
         ''http://h/x.png'' 8000)"
proof -
  have 1: "(\<lambda>s. if s = ''http://h/x.png'' then Some example_url else None) ''not a url'' = None"
    by simp
  have 2: "(\<lambda>s. Some example_url) ''http://h/x.png'' = Some example_url \<and>
      (\<lambda>r. Timeout) (request_for example_url 8000) \<in> {NetError, Timeout, RequestThrows}"
    by simp
  have 3: "ok (checkUrl ascii_lower (\<lambda>s. if s = ''http://h/x.png'' then Some example_url else None)
         (\<lambda>r. Response 200 (Some ''Image/PNG'')) ''http://h/x.png'' 8000)"
    "\<not> ok (checkUrl ascii_lower (\<lambda>s. Some example_url) (\<lambda>r. Response 404 (Some ''image/png''))
         ''http://h/x.png'' 8000)"
    by code_simp+
  from probe_total [of ascii_lower "\<lambda>s. if s = ''http://h/x.png'' then Some example_url else None"
      "\<lambda>r. Response 200 (Some ''Image/PNG'')" "''not a url''" 8000] 1
  have a: "checkUrl ascii_lower (\<lambda>s. if s = ''http://h/x.png'' then Some example_url else None)
         (\<lambda>r. Response 200 (Some ''Image/PNG'')) ''not a url'' 8000 = not_ok"
    by blast
  from probe_total [of ascii_lower "\<lambda>s. Some example_url" "\<lambda>r. Timeout" "''http://h/x.png''" 8000
      example_url] 2
  have b: "checkUrl ascii_lower (\<lambda>s. Some example_url) (\<lambda>r. Timeout) ''http://h/x.png'' 8000 = not_ok"
    by blast
  show ?thesis using 3 a b by blast
qed

end
